theory Spec2Isabelle
  imports Complex_Main "HOL-Library.Word"
begin

section \<open>The Acquire camera adapter (AcquireCamera.cpp)\<close>

text \<open>
  A shallow embedding of the frame acquisition code of the adapter: the polling of the
  driver's mapped ring buffers, the compositing of frames into the image buffers, the
  delivery into the downstream circular buffer, and the small pieces of the controller
  that select cameras, set frame targets and hand out image buffers.

  Pointers and \<open>size_t\<close> values are 64-bit words, \<open>unsigned\<close> values are 32-bit
  words, so that pointer arithmetic, \<open>size() - 1\<close> and the narrowing casts wrap as they do
  in the program. What C++ leaves undefined (an index outside a vector, a division by
  zero, a copy larger than its target) is a \<open>fault\<close>, kept apart from the status codes
  the functions return.
\<close>

subsection \<open>Data\<close>

type_synonym addr = "64 word"

text \<open>
  The fields of the driver's \<open>VideoFrame\<close> that the adapter reads. \<open>data\<close> is the
  flexible array member that follows the header: \<open>data f k\<close> is the byte at offset \<open>k\<close>
  from its start.
\<close>

record VideoFrame =
  bytes_of_frame :: "64 word"
  frame_id :: "64 word"
  timestamps_hardware :: "64 word"
  data :: "nat \<Rightarrow> 8 word"

text \<open>
  \<open>ImgBuffer\<close> of the device library: the geometry and the owned pixel array, whose
  length is the capacity of the allocation.
\<close>

record ImgBuffer =
  Width :: "32 word"
  Height :: "32 word"
  Depth :: "32 word"
  pixels :: "8 word list"

record Metadata =
  CpxFrameId :: "64 word"
  CpxTimeStamp :: "64 word"

text \<open>The part of the driver's configuration that the adapter sets per stream.\<close>

record VideoStream =
  max_frame_count :: "64 word"

record CpxProperties =
  video0 :: VideoStream
  video1 :: VideoStream

text \<open>
  Status codes. \<open>CpxStatus_Fail k\<close> and \<open>CoreStatus k\<close> stand for any other code that
  the driver or the core returned and the adapter passes on unchanged.
\<close>

datatype cpx_status = CpxStatus_Ok | CpxStatus_Fail int

datatype status =
    DEVICE_OK
  | DEVICE_BUFFER_OVERFLOW
  | DEVICE_CAMERA_BUSY_ACQUIRING
  | ERR_TIMEOUT
  | ERR_INVALID_CAMERA_SELECTION
  | ERR_CPX_CONFIURE_FAILED
  | Cpx cpx_status
  | CoreStatus int

datatype fault = OutOfBounds | DivisionByZero | BufferOverrun

text \<open>The messages written to the log, by content rather than by text.\<close>

datatype message =
    MissedFrame nat "64 word" "64 word"
  | FrameInserted nat "64 word"
  | BufferOverflowed nat "64 word"
  | ConfigureFailed
  | StartedSequence

text \<open>
  The effects of the adapter on its collaborators, in program order: copies into an image
  buffer (buffer index, address of the source frame, byte count), the release of a mapped
  range, and the calls to the core callback.
\<close>

datatype event =
    Memcpy nat addr nat
  | UnmapRead nat "64 word"
  | InsertImage "8 word list" "32 word" "32 word" "32 word" Metadata
  | ClearImageBuffer
  | LogMessage message
  | PrepareForAcq
  | CpxConfigure CpxProperties
  | CpxStart
  | LiveThreadStart int real

text \<open>
  The collaborators, as the adapter sees them during one call:
  \<open>map_read d s k\<close> is the range \<open>(beg, end)\<close> that the \<open>k\<close>-th \<open>cpx_map_read\<close> on stream
  \<open>s\<close> returns (\<open>k = 0\<close> is the call before the retry loop), \<open>mem d a\<close> is the frame header
  the bytes at address \<open>a\<close> decode to, \<open>sizeof_VideoFrame d\<close> is the size of the header
  type, and \<open>insert_image d k\<close> is the status of the \<open>k\<close>-th \<open>InsertImage\<close> call.
\<close>

record driver =
  map_read :: "nat \<Rightarrow> nat \<Rightarrow> addr \<times> addr"
  mem :: "addr \<Rightarrow> VideoFrame"
  sizeof_VideoFrame :: "64 word"
  insert_image :: "nat \<Rightarrow> status"

text \<open>
  The members of \<open>AcquireCamera\<close> that the modelled functions use. \<open>isDual\<close> is the
  predicate of the class declaration, taken as given. \<open>inserts\<close> counts the
  \<open>InsertImage\<close> calls made so far and \<open>effects\<close> records what the object did.
\<close>

record AcquireCamera =
  imgs :: "ImgBuffer list"
  multiChannel :: bool
  stopOnOverflow :: bool
  currentCamera :: nat
  isDual :: bool
  camera1 :: string
  camera2 :: string
  inserts :: nat
  effects :: "event list"

definition emit :: "event \<Rightarrow> AcquireCamera \<Rightarrow> AcquireCamera" where
  "emit e c = c\<lparr>effects := effects c @ [e]\<rparr>"

definition vec_at :: "'a list \<Rightarrow> nat \<Rightarrow> fault + 'a" where
  "vec_at xs i = (if i < length xs then Inr (xs ! i) else Inl OutOfBounds)"

subsection \<open>Helpers of the file\<close>

text \<open>\<open>ConsumedBytes\<close> (line 52): the byte distance between two frame pointers.\<close>

definition ConsumedBytes :: "addr \<Rightarrow> addr \<Rightarrow> 64 word" where
  "ConsumedBytes cur end = end - cur"

text \<open>\<open>next\<close> (line 47): the frame that follows, one stride of bytes further.\<close>

definition next_frame :: "driver \<Rightarrow> addr \<Rightarrow> addr" where
  "next_frame d cur = cur + bytes_of_frame (mem d cur)"

subsection \<open>The Stream Reader's retry loop\<close>

definition maxRetries :: nat where
  "maxRetries = 1000"

text \<open>
  \<open>while (beg == end && retries < maxRetries) { retries++; cpx_map_read(..); sleep(5ms); }\<close>
  as written at lines 544, 561, 592 and 611. \<open>rd k\<close> is the range the \<open>k\<close>-th call
  returns; the loop returns the last range and the number of retries made. The sleep has
  no effect on what is computed.
\<close>

function retry_loop :: "(nat \<Rightarrow> addr \<times> addr) \<Rightarrow> addr \<times> addr \<Rightarrow> nat \<Rightarrow> (addr \<times> addr) \<times> nat" where
  "retry_loop rd r retries =
     (if fst r = snd r \<and> retries < maxRetries
      then retry_loop rd (rd (Suc retries)) (Suc retries)
      else (r, retries))"
  by pat_completeness auto
termination
  by (relation "measure (\<lambda>(rd, r, retries). maxRetries - retries)") auto

declare retry_loop.simps [simp del]

text \<open>The first \<open>cpx_map_read\<close> followed by the loop.\<close>

definition poll_stream :: "driver \<Rightarrow> nat \<Rightarrow> (addr \<times> addr) \<times> nat" where
  "poll_stream d s = retry_loop (map_read d s) (map_read d s 0) 0"

subsection \<open>Copies into the image buffers\<close>

text \<open>
  \<open>memcpy(imgs[ch].GetPixelsRW(), f->data, n)\<close>: the first \<open>n\<close> bytes of the buffer are
  overwritten.
\<close>

definition memcpy_frame :: "nat \<Rightarrow> addr \<Rightarrow> VideoFrame \<Rightarrow> nat \<Rightarrow> AcquireCamera \<Rightarrow> fault + AcquireCamera" where
  "memcpy_frame ch a f n c =
     (case vec_at (imgs c) ch of
        Inl e \<Rightarrow> Inl e
      | Inr b \<Rightarrow>
          if length (pixels b) < n then Inl BufferOverrun
          else Inr (emit (Memcpy ch a n)
                 (c\<lparr>imgs := (imgs c)[ch := b\<lparr>pixels := map (data f) [0..<n] @ drop n (pixels b)\<rparr>]\<rparr>)))"

text \<open>\<open>Width() * Height() * Depth()\<close>, a product of \<open>unsigned\<close> values.\<close>

definition image_bytes :: "ImgBuffer \<Rightarrow> nat" where
  "image_bytes b = unat (Width b * Height b * Depth b)"

subsection \<open>\<open>readSnapImageFrames\<close>\<close>

text \<open>
  The block the function runs for stream 0 (lines 541 to 555) and again for stream 1
  (lines 559 to 572): poll, give up with \<open>ERR_TIMEOUT\<close>, else copy the first frame's
  payload and release the whole range, its length narrowed to \<open>uint32_t\<close>.
\<close>

definition snap_stream :: "driver \<Rightarrow> nat \<Rightarrow> AcquireCamera \<Rightarrow> fault + (status \<times> AcquireCamera)" where
  "snap_stream d s c =
     (let ((beg, end), retries) = poll_stream d s in
      if retries \<ge> maxRetries then Inr (ERR_TIMEOUT, c)
      else
        case memcpy_frame s beg (mem d beg)
               (unat (bytes_of_frame (mem d beg) - sizeof_VideoFrame d)) c of
          Inl e \<Rightarrow> Inl e
        | Inr c1 \<Rightarrow>
            let n = (ucast (ConsumedBytes beg end) :: 32 word)
            in Inr (DEVICE_OK, emit (UnmapRead s (ucast n)) c1))"

definition readSnapImageFrames :: "driver \<Rightarrow> AcquireCamera \<Rightarrow> fault + (status \<times> AcquireCamera)" where
  "readSnapImageFrames d c =
     (case snap_stream d 0 c of
        Inl e \<Rightarrow> Inl e
      | Inr (ret, c1) \<Rightarrow>
          if ret \<noteq> DEVICE_OK then Inr (ret, c1)
          else if length (imgs c1) > 1 then snap_stream d 1 c1
          else Inr (DEVICE_OK, c1))"

subsection \<open>The Delivery Sink\<close>

text \<open>
  Multi-channel mode (lines 656 to 665): \<open>for (bufNum = 0; bufNum < imgs.size(); bufNum++)\<close>,
  leaving the loop after a cleared overflow. The list is the buffers from \<open>bufNum\<close> on.
\<close>

fun insert_channels :: "driver \<Rightarrow> Metadata \<Rightarrow> 64 word \<Rightarrow> nat \<Rightarrow> ImgBuffer list \<Rightarrow> AcquireCamera \<Rightarrow> AcquireCamera" where
  "insert_channels d md currentFrameId bufNum [] c = c"
| "insert_channels d md currentFrameId bufNum (b # bs) c =
     (let ret = insert_image d (inserts c);
          c1 = emit (InsertImage (pixels b) (Width b) (Height b) (Depth b) md) (c\<lparr>inserts := Suc (inserts c)\<rparr>);
          c2 = emit (LogMessage (FrameInserted (bufNum + 1) currentFrameId)) c1
      in if \<not> stopOnOverflow c \<and> ret = DEVICE_BUFFER_OVERFLOW
         then emit (LogMessage (BufferOverflowed (bufNum + 1) currentFrameId)) (emit ClearImageBuffer c2)
         else insert_channels d md currentFrameId (bufNum + 1) bs c2)"

text \<open>Single-channel mode (lines 669 to 676): the buffer of the current camera.\<close>

definition insert_current :: "driver \<Rightarrow> Metadata \<Rightarrow> 64 word \<Rightarrow> AcquireCamera \<Rightarrow> fault + AcquireCamera" where
  "insert_current d md currentFrameId c =
     (case vec_at (imgs c) (currentCamera c) of
        Inl e \<Rightarrow> Inl e
      | Inr b \<Rightarrow>
          let ret = insert_image d (inserts c);
              c1 = emit (InsertImage (pixels b) (Width b) (Height b) (Depth b) md) (c\<lparr>inserts := Suc (inserts c)\<rparr>);
              c2 = emit (LogMessage (FrameInserted (currentCamera c + 1) currentFrameId)) c1
          in if \<not> stopOnOverflow c \<and> ret = DEVICE_BUFFER_OVERFLOW
             then
               let c3 = emit ClearImageBuffer c2;
                   c4 = emit (InsertImage (pixels b) (Width b) (Height b) (Depth b) md) (c3\<lparr>inserts := Suc (inserts c3)\<rparr>)
               in Inr (emit (LogMessage (BufferOverflowed (currentCamera c + 1) currentFrameId)) c4)
             else Inr c2)"

subsection \<open>\<open>readLiveFrames\<close>\<close>

record cursor =
  ptr1 :: addr
  ptr2 :: addr
  cam :: AcquireCamera

text \<open>
  The check of a frame's id and the copy of its pixels, as done for camera 1 on
  \<open>imgs[0]\<close> (lines 630 to 636) and for camera 2 on \<open>imgs[1]\<close> (lines 645 to 650). The
  message names \<open>startFrameId + 1\<close>, as the program does.
\<close>

definition check_and_copy :: "nat \<Rightarrow> addr \<Rightarrow> VideoFrame \<Rightarrow> 64 word \<Rightarrow> nat \<Rightarrow> AcquireCamera \<Rightarrow> fault + AcquireCamera" where
  "check_and_copy ch a f startFrameId i c =
     (let c1 = (if frame_id f \<noteq> startFrameId + of_nat i
                then emit (LogMessage (MissedFrame (ch + 1) (startFrameId + 1) (frame_id f))) c
                else c)
      in case vec_at (imgs c1) ch of
           Inl e \<Rightarrow> Inl e
         | Inr b \<Rightarrow> memcpy_frame ch a f (image_bytes b) c1)"

text \<open>The two tags put into the metadata of a frame.\<close>

definition frame_metadata :: "VideoFrame \<Rightarrow> Metadata" where
  "frame_metadata f = \<lparr>CpxFrameId = frame_id f, CpxTimeStamp = timestamps_hardware f\<rparr>"

text \<open>
  One round of the frame loop (lines 629 to 681). \<open>ptr1\<close> and \<open>ptr2\<close> are
  \<open>VideoFrame*\<close>, so \<open>ptr1 += beg1->bytes_of_frame\<close> moves the pointer by that many
  headers, each \<open>sizeof(VideoFrame)\<close> bytes.
\<close>

definition frame_step :: "driver \<Rightarrow> addr \<Rightarrow> addr \<Rightarrow> 64 word \<Rightarrow> nat \<Rightarrow> cursor \<Rightarrow> fault + cursor" where
  "frame_step d beg1 beg2 startFrameId i st =
     (let f1 = mem d (ptr1 st) in
      case check_and_copy 0 (ptr1 st) f1 startFrameId i (cam st) of
        Inl e \<Rightarrow> Inl e
      | Inr c1 \<Rightarrow>
          let md = frame_metadata f1;
              currentFrameId = frame_id f1
          in (case (if isDual c1
                    then check_and_copy 1 (ptr2 st) (mem d (ptr2 st)) startFrameId i c1
                    else Inr c1) of
                Inl e \<Rightarrow> Inl e
              | Inr c2 \<Rightarrow>
                  (case (if multiChannel c2
                         then Inr (insert_channels d md currentFrameId 0 (imgs c2) c2)
                         else insert_current d md currentFrameId c2) of
                     Inl e \<Rightarrow> Inl e
                   | Inr c3 \<Rightarrow>
                       Inr \<lparr>ptr1 = ptr1 st + bytes_of_frame (mem d beg1) * sizeof_VideoFrame d,
                            ptr2 = (if isDual c3
                                    then ptr2 st + bytes_of_frame (mem d beg2) * sizeof_VideoFrame d
                                    else ptr2 st),
                            cam = c3\<rparr>)))"

text \<open>\<open>for (size_t i = 0; i < numFrames; i++)\<close>, over the indices still to run.\<close>

fun frame_loop :: "(nat \<Rightarrow> cursor \<Rightarrow> fault + cursor) \<Rightarrow> nat list \<Rightarrow> cursor \<Rightarrow> fault + cursor" where
  "frame_loop body [] st = Inr st"
| "frame_loop body (i # ns) st =
     (case body i st of Inl e \<Rightarrow> Inl e | Inr st' \<Rightarrow> frame_loop body ns st')"

text \<open>
  Lines 623 to 689: the frame loop over \<open>numFrames\<close> indices, the release of both
  ranges and the out-parameter \<open>framesRead = (int)numFrames\<close>. \<open>nullptr\<close> is address 0.
\<close>

definition deliver_batch :: "driver \<Rightarrow> AcquireCamera \<Rightarrow> addr \<Rightarrow> addr \<Rightarrow> 64 word \<Rightarrow> 64 word \<Rightarrow> fault + (status \<times> int \<times> AcquireCamera)" where
  "deliver_batch d c beg1 beg2 startFrameId numFrames =
     (case frame_loop (frame_step d beg1 beg2 startFrameId) [0..<unat numFrames]
             \<lparr>ptr1 = beg1, ptr2 = beg2, cam = c\<rparr> of
        Inl e \<Rightarrow> Inl e
      | Inr st \<Rightarrow>
          let c1 = emit (UnmapRead 0 (numFrames * bytes_of_frame (mem d beg1))) (cam st);
              c2 = (if isDual c1 \<and> beg2 \<noteq> 0
                    then emit (UnmapRead 1 (numFrames * bytes_of_frame (mem d beg2))) c1
                    else c1)
          in Inr (DEVICE_OK, sint (ucast numFrames :: 32 word), c2))"

text \<open>
  Lines 584 to 622, then the delivery. The function returns its status, the out-parameter
  \<open>framesRead\<close> and the object. The frame count of a range is its byte length divided by
  the stride of its first frame.
\<close>

definition readLiveFrames :: "driver \<Rightarrow> AcquireCamera \<Rightarrow> fault + (status \<times> int \<times> AcquireCamera)" where
  "readLiveFrames d c =
     (let ((beg1, end1), retries1) = poll_stream d 0 in
      if retries1 \<ge> maxRetries then Inr (ERR_TIMEOUT, 0, c)
      else if bytes_of_frame (mem d beg1) = 0 then Inl DivisionByZero
      else
        let numFrames1 = ConsumedBytes beg1 end1 div bytes_of_frame (mem d beg1);
            startFrameId = frame_id (mem d beg1)
        in if isDual c
           then
             (let ((beg2, end2), retries2) = poll_stream d 1 in
              if retries2 \<ge> maxRetries then Inr (ERR_TIMEOUT, 0, c)
              else if bytes_of_frame (mem d beg2) = 0 then Inl DivisionByZero
              else
                let numFrames2 = ConsumedBytes beg2 end2 div bytes_of_frame (mem d beg2)
                in deliver_batch d c beg1 beg2 startFrameId (min numFrames1 numFrames2))
           else deliver_batch d c beg1 0 startFrameId numFrames1)"

subsection \<open>Image buffers of the object\<close>

text \<open>
  Modelled from the spec: \<open>ImgBuffer::Resize\<close> belongs to the device library and is not in
  this file. The spec's ImageBuffer is an owned pixel buffer with width, height and
  depth in bytes per pixel, so a buffer resized from empty holds
  \<open>width * height * depth\<close> zeroed bytes.
\<close>

definition Resize :: "32 word \<Rightarrow> 32 word \<Rightarrow> 32 word \<Rightarrow> ImgBuffer" where
  "Resize w h dp = \<lparr>Width = w, Height = h, Depth = dp, pixels = replicate (unat (w * h * dp)) 0\<rparr>"

text \<open>\<open>setupBuffers\<close> (line 699): the vector is cleared, then holds two buffers in dual mode and one otherwise.\<close>

definition setupBuffers :: "32 word \<Rightarrow> 32 word \<Rightarrow> 32 word \<Rightarrow> bool \<Rightarrow> AcquireCamera \<Rightarrow> AcquireCamera" where
  "setupBuffers w h dp dual c =
     (if dual then c\<lparr>imgs := [Resize w h dp, Resize w h dp]\<rparr>
      else c\<lparr>imgs := [Resize w h dp]\<rparr>)"

text \<open>\<open>OnDevice\<close> (line 826) after the property was set to \<open>dev\<close>.\<close>

definition OnDevice_AfterSet :: "string \<Rightarrow> AcquireCamera \<Rightarrow> AcquireCamera" where
  "OnDevice_AfterSet dev c =
     (if dev = camera1 c then c\<lparr>currentCamera := 0\<rparr> else c\<lparr>currentCamera := 1\<rparr>)"

text \<open>
  \<open>GetImageBuffer(unsigned channel)\<close> (line 375): \<open>Inr None\<close> is the null pointer, \<open>Inr (Some px)\<close> the
  pixels of a buffer. \<open>imgs.size() - 1\<close> is computed in \<open>size_t\<close>.
\<close>

definition GetImageBuffer_channel :: "AcquireCamera \<Rightarrow> 32 word \<Rightarrow> fault + 8 word list option" where
  "GetImageBuffer_channel c channel =
     (if (ucast channel :: 64 word) > of_nat (length (imgs c)) - 1 then Inr None
      else if multiChannel c
      then (case vec_at (imgs c) (unat channel) of Inl e \<Rightarrow> Inl e | Inr b \<Rightarrow> Inr (Some (pixels b)))
      else (case vec_at (imgs c) (currentCamera c) of Inl e \<Rightarrow> Inl e | Inr b \<Rightarrow> Inr (Some (pixels b))))"

subsection \<open>Camera selection in \<open>Initialize\<close>\<close>

text \<open>\<open>s.rfind(p, 0) == 0\<close>: \<open>s\<close> begins with \<open>p\<close>.\<close>

definition rfind0 :: "string \<Rightarrow> string \<Rightarrow> bool" where
  "rfind0 s p = (take (length p) s = p)"

text \<open>
  Lines 138 to 151 of \<open>Initialize\<close>: the error returned, or the value given to \<open>demo\<close>
  when the function goes on to load the driver. The name of the empty choice,
  \<open>g_Camera_None\<close>, is declared outside the file and is a parameter here.
\<close>

definition check_camera_selection :: "string \<Rightarrow> string \<Rightarrow> string \<Rightarrow> status + bool" where
  "check_camera_selection g_Camera_None cam1 cam2 =
     (if cam1 = cam2 then Inl ERR_INVALID_CAMERA_SELECTION
      else if cam1 = g_Camera_None then Inl ERR_INVALID_CAMERA_SELECTION
      else if rfind0 cam1 ''simulated''
      then (if cam2 \<noteq> g_Camera_None \<and> \<not> rfind0 cam2 ''simulated''
            then Inl ERR_INVALID_CAMERA_SELECTION
            else Inr True)
      else Inr False)"

subsection \<open>\<open>StartSequenceAcquisition\<close>\<close>

text \<open>
  Lines 457 to 489. What the collaborators answer during the call: whether the live thread is active, the
  status of \<open>PrepareForAcq\<close>, the configuration read from the driver, and the statuses of
  \<open>cpx_configure\<close> and \<open>cpx_start\<close>.
\<close>

record host =
  is_capturing :: bool
  prepare_for_acq :: status
  get_configuration :: CpxProperties
  configure_status :: cpx_status
  start_status :: cpx_status

definition MAXUINT64 :: "64 word" where
  "MAXUINT64 = 0xFFFFFFFFFFFFFFFF"

text \<open>
  \<open>numImages\<close> is a \<open>long\<close>, modelled by its value; the conditional converts it to the
  unsigned 64-bit type of its other branch, that is, modulo \<open>2 ^ 64\<close>.
\<close>

definition frame_target :: "int \<Rightarrow> 64 word" where
  "frame_target numImages = (if numImages = 0 then MAXUINT64 else word_of_int numImages)"

definition StartSequenceAcquisition :: "host \<Rightarrow> int \<Rightarrow> real \<Rightarrow> bool \<Rightarrow> AcquireCamera \<Rightarrow> status \<times> AcquireCamera" where
  "StartSequenceAcquisition h numImages interval_ms stopOnOvf c =
     (if is_capturing h then (DEVICE_CAMERA_BUSY_ACQUIRING, c)
      else
        let c1 = emit PrepareForAcq c in
        if prepare_for_acq h \<noteq> DEVICE_OK then (prepare_for_acq h, c1)
        else
          let props = get_configuration h;
              props1 = props\<lparr>video0 := (video0 props)\<lparr>max_frame_count := frame_target numImages\<rparr>\<rparr>;
              props2 = props1\<lparr>video1 := (video1 props1)\<lparr>max_frame_count := frame_target numImages\<rparr>\<rparr>;
              c2 = emit (CpxConfigure props2) c1
          in if configure_status h \<noteq> CpxStatus_Ok
             then (ERR_CPX_CONFIURE_FAILED, emit (LogMessage ConfigureFailed) c2)
             else
               let c3 = emit CpxStart c2 in
               if start_status h \<noteq> CpxStatus_Ok then (Cpx (start_status h), c3)
               else
                 let c4 = emit (LogMessage StartedSequence) c3
                 in (DEVICE_OK, emit (LiveThreadStart numImages interval_ms) (c4\<lparr>stopOnOverflow := stopOnOvf\<rparr>)))"

subsection \<open>Reading the record of effects\<close>

fun unmapped_bytes :: "nat \<Rightarrow> event list \<Rightarrow> 64 word list" where
  "unmapped_bytes s [] = []"
| "unmapped_bytes s (UnmapRead s' n # es) = (if s' = s then n # unmapped_bytes s es else unmapped_bytes s es)"
| "unmapped_bytes s (e # es) = unmapped_bytes s es"

fun composited :: "nat \<Rightarrow> event list \<Rightarrow> addr list" where
  "composited ch [] = []"
| "composited ch (Memcpy ch' a n # es) = (if ch' = ch then a # composited ch es else composited ch es)"
| "composited ch (e # es) = composited ch es"

fun inserted_ids :: "event list \<Rightarrow> 64 word list" where
  "inserted_ids [] = []"
| "inserted_ids (InsertImage px w h dp md # es) = CpxFrameId md # inserted_ids es"
| "inserted_ids (e # es) = inserted_ids es"

fun sink_calls :: "event list \<Rightarrow> event list" where
  "sink_calls [] = []"
| "sink_calls (InsertImage px w h dp md # es) = InsertImage px w h dp md # sink_calls es"
| "sink_calls (ClearImageBuffer # es) = ClearImageBuffer # sink_calls es"
| "sink_calls (e # es) = sink_calls es"

fun configured :: "event list \<Rightarrow> CpxProperties list" where
  "configured [] = []"
| "configured (CpxConfigure p # es) = p # configured es"
| "configured (e # es) = configured es"

subsection \<open>Notions used in the proofs\<close>

text \<open>
  What a copy or an insert leaves unchanged: the geometry and capacity of every buffer and
  the mode flags. \<open>buffers_ready\<close> says that the buffers the frame loop touches exist and
  can hold an image of their own geometry, as they do after \<open>setupBuffers\<close>.
\<close>

definition dims :: "ImgBuffer \<Rightarrow> 32 word \<times> 32 word \<times> 32 word \<times> nat" where
  "dims b = (Width b, Height b, Depth b, length (pixels b))"

definition shape :: "AcquireCamera \<Rightarrow> (32 word \<times> 32 word \<times> 32 word \<times> nat) list \<times> bool \<times> bool \<times> nat \<times> bool" where
  "shape c = (map dims (imgs c), multiChannel c, stopOnOverflow c, currentCamera c, isDual c)"

definition buffer_fits :: "AcquireCamera \<Rightarrow> nat \<Rightarrow> bool" where
  "buffer_fits c ch = (ch < length (imgs c) \<and> image_bytes (imgs c ! ch) \<le> length (pixels (imgs c ! ch)))"

definition buffers_ready :: "AcquireCamera \<Rightarrow> bool" where
  "buffers_ready c =
     (buffer_fits c 0 \<and> (isDual c \<longrightarrow> buffer_fits c 1) \<and>
      (\<not> multiChannel c \<longrightarrow> currentCamera c < length (imgs c)))"

definition extends :: "AcquireCamera \<Rightarrow> AcquireCamera \<Rightarrow> event list \<Rightarrow> bool" where
  "extends c c' es = (effects c' = effects c @ es \<and> shape c' = shape c)"

text \<open>The events of the sink, and the events of one check and copy.\<close>

fun is_sink_event :: "event \<Rightarrow> bool" where
  "is_sink_event (InsertImage px w h dp md) = True"
| "is_sink_event ClearImageBuffer = True"
| "is_sink_event (LogMessage (FrameInserted n fid)) = True"
| "is_sink_event (LogMessage (BufferOverflowed n fid)) = True"
| "is_sink_event e = False"

definition check_events :: "nat \<Rightarrow> addr \<Rightarrow> VideoFrame \<Rightarrow> 64 word \<Rightarrow> nat \<Rightarrow> nat \<Rightarrow> event list" where
  "check_events ch a f startFrameId i n =
     (if frame_id f \<noteq> startFrameId + of_nat i
      then [LogMessage (MissedFrame (ch + 1) (startFrameId + 1) (frame_id f))] else []) @ [Memcpy ch a n]"

fun missed_frames :: "event list \<Rightarrow> (nat \<times> 64 word \<times> 64 word) list" where
  "missed_frames [] = []"
| "missed_frames (LogMessage (MissedFrame n e g) # es) = (n, e, g) # missed_frames es"
| "missed_frames (e # es) = missed_frames es"

text \<open>The missed-frame messages one round of the frame loop writes.\<close>

definition missed_at :: "driver \<Rightarrow> 64 word \<Rightarrow> nat \<Rightarrow> addr \<Rightarrow> addr \<Rightarrow> bool \<Rightarrow> (nat \<times> 64 word \<times> 64 word) list" where
  "missed_at d startFrameId i a1 a2 dual =
     (if frame_id (mem d a1) \<noteq> startFrameId + of_nat i
      then [(1, startFrameId + 1, frame_id (mem d a1))] else []) @
     (if dual \<and> frame_id (mem d a2) \<noteq> startFrameId + of_nat i
      then [(2, startFrameId + 1, frame_id (mem d a2))] else [])"

subsection \<open>The words of the specification\<close>

text \<open>
  The range a stream's poll ends with, whether the poll ended before the retry bound, the
  byte length of the range, its frame stride (the byte length of its first frame) and, as
  the spec puts it, \<open>available = byteLength / frame_stride\<close>.
\<close>

definition mapped_range :: "driver \<Rightarrow> nat \<Rightarrow> addr \<times> addr" where
  "mapped_range d s = fst (poll_stream d s)"

definition polled :: "driver \<Rightarrow> nat \<Rightarrow> bool" where
  "polled d s = (snd (poll_stream d s) < maxRetries)"

definition range_bytes :: "driver \<Rightarrow> nat \<Rightarrow> 64 word" where
  "range_bytes d s = snd (mapped_range d s) - fst (mapped_range d s)"

definition frame_stride :: "driver \<Rightarrow> nat \<Rightarrow> 64 word" where
  "frame_stride d s = bytes_of_frame (mem d (fst (mapped_range d s)))"

definition available :: "driver \<Rightarrow> nat \<Rightarrow> 64 word" where
  "available d s = range_bytes d s div frame_stride d s"

text \<open>The batch size of the spec: the smaller count in dual mode, the count of stream 0 otherwise.\<close>

definition batch_size :: "driver \<Rightarrow> AcquireCamera \<Rightarrow> 64 word" where
  "batch_size d c = (if isDual c then min (available d 0) (available d 1) else available d 0)"

text \<open>The start of the second range as the function holds it: null in single mode.\<close>

definition second_begin :: "driver \<Rightarrow> AcquireCamera \<Rightarrow> addr" where
  "second_begin d c = (if isDual c then fst (mapped_range d 1) else 0)"

text \<open>What a read needs to get through: frames on every active stream, a stride, and buffers.\<close>

definition live_ready :: "driver \<Rightarrow> AcquireCamera \<Rightarrow> bool" where
  "live_ready d c =
     (polled d 0 \<and> frame_stride d 0 \<noteq> 0 \<and>
      (isDual c \<longrightarrow> polled d 1 \<and> frame_stride d 1 \<noteq> 0) \<and> buffers_ready c)"

text \<open>
  What a snap needs to get through: a frame on every stream that has a buffer, and buffers
  that hold the payload of a frame (its bytes without the header).
\<close>

definition snap_fits :: "driver \<Rightarrow> AcquireCamera \<Rightarrow> nat \<Rightarrow> bool" where
  "snap_fits d c s =
     (polled d s \<and> s < length (imgs c) \<and>
      unat (frame_stride d s - sizeof_VideoFrame d) \<le> length (pixels (imgs c ! s)))"

definition snap_ready :: "driver \<Rightarrow> AcquireCamera \<Rightarrow> bool" where
  "snap_ready d c = (snap_fits d c 0 \<and> (1 < length (imgs c) \<longrightarrow> snap_fits d c 1))"

text \<open>An address inside a mapped range.\<close>

definition in_range :: "addr \<times> addr \<Rightarrow> addr \<Rightarrow> bool" where
  "in_range r a = (fst r \<le> a \<and> a < snd r)"

subsection \<open>Concrete inputs\<close>

text \<open>A frame of 92 bytes, of which 88 are header, with the given id.\<close>

definition frame92 :: "64 word \<Rightarrow> VideoFrame" where
  "frame92 fid = \<lparr>bytes_of_frame = 92, frame_id = fid, timestamps_hardware = 0, data = (\<lambda>k. 7)\<rparr>"

text \<open>
  Two ring buffers with frames of 92 bytes: five frames with ids 100 to 104 from address
  4096 on, and five more with the same ids from address 8192 on. Every other address
  decodes to a frame with id 0.
\<close>

definition ring_mem :: "addr \<Rightarrow> VideoFrame" where
  "ring_mem a =
     frame92 (if a = 4096 \<or> a = 8192 then 100
              else if a = 4188 \<or> a = 8284 then 101
              else if a = 4280 \<or> a = 8376 then 102
              else if a = 4372 \<or> a = 8468 then 103
              else if a = 4464 \<or> a = 8560 then 104
              else 0)"

text \<open>A camera object as \<open>Initialize\<close> leaves it in single mode, with a 2 by 2 image of one byte per pixel.\<close>

definition single_camera :: AcquireCamera where
  "single_camera =
     setupBuffers 2 2 1 False
       \<lparr>imgs = [], multiChannel = False, stopOnOverflow = False, currentCamera = 0,
        isDual = False, camera1 = ''simulated: radial sin'', camera2 = ''None'',
        inserts = 0, effects = []\<rparr>"

text \<open>A camera object as \<open>Initialize\<close> leaves it in dual mode, with 2 by 2 images of one byte per pixel.\<close>

definition dual_camera :: AcquireCamera where
  "dual_camera =
     setupBuffers 2 2 1 True
       \<lparr>imgs = [], multiChannel = True, stopOnOverflow = False, currentCamera = 0,
        isDual = True, camera1 = ''simulated: radial sin'', camera2 = ''simulated: uniform random'',
        inserts = 0, effects = []\<rparr>"

text \<open>The single camera with \<open>stopOnOverflow\<close> set, as \<open>StartSequenceAcquisition\<close> leaves it.\<close>

definition stopping_camera :: AcquireCamera where
  "stopping_camera = single_camera\<lparr>stopOnOverflow := True\<rparr>"

text \<open>Scenario A: five frames mapped on each stream. Scenario B: five on stream 0, three on stream 1.\<close>

definition scenarioA :: driver where
  "scenarioA =
     \<lparr>map_read = (\<lambda>s k. if s = 0 then (4096, 4556) else (8192, 8652)), mem = ring_mem,
      sizeof_VideoFrame = 88, insert_image = (\<lambda>k. DEVICE_OK)\<rparr>"


text \<open>
  A driver whose stream 0 is empty on the first call and on 999 retries, and holds one
  frame on the 1000th retry.
\<close>

definition late_frame_driver :: driver where
  "late_frame_driver =
     \<lparr>map_read = (\<lambda>s k. if k < 1000 then (4096, 4096) else (4096, 4188)), mem = ring_mem,
      sizeof_VideoFrame = 88, insert_image = (\<lambda>k. DEVICE_OK)\<rparr>"

text \<open>
  A ring buffer whose stream lost a frame: the frames at 4096 and 4188 carry the ids 100
  and 102. Every other address decodes to a frame with id 0.
\<close>

definition gap_mem :: "addr \<Rightarrow> VideoFrame" where
  "gap_mem a = frame92 (if a = 4096 then 100 else if a = 4188 then 102 else 0)"

text \<open>The same, with the header of an older frame of id 101 left at address 12192.\<close>

definition stale_gap_mem :: "addr \<Rightarrow> VideoFrame" where
  "stale_gap_mem a =
     frame92 (if a = 4096 then 100 else if a = 4188 then 102 else if a = 12192 then 101 else 0)"

text \<open>A driver with two frames mapped on stream 0, over each of the two memories.\<close>

definition gap_driver :: driver where
  "gap_driver =
     \<lparr>map_read = (\<lambda>s k. (4096, 4280)), mem = gap_mem, sizeof_VideoFrame = 88,
      insert_image = (\<lambda>k. DEVICE_OK)\<rparr>"

definition stale_gap_driver :: driver where
  "stale_gap_driver =
     \<lparr>map_read = (\<lambda>s k. (4096, 4280)), mem = stale_gap_mem, sizeof_VideoFrame = 88,
      insert_image = (\<lambda>k. DEVICE_OK)\<rparr>"

text \<open>A driver with one frame ready on stream 0 and a full downstream buffer.\<close>

definition full_sink_driver :: driver where
  "full_sink_driver =
     \<lparr>map_read = (\<lambda>s k. (4096, 4188)), mem = (\<lambda>a. frame92 100), sizeof_VideoFrame = 88,
      insert_image = (\<lambda>k. DEVICE_BUFFER_OVERFLOW)\<rparr>"

text \<open>What the collaborators answer to an acquisition start that meets no obstacle.\<close>

definition idle_host :: host where
  "idle_host =
     \<lparr>is_capturing = False, prepare_for_acq = DEVICE_OK,
      get_configuration = \<lparr>video0 = \<lparr>max_frame_count = 1\<rparr>, video1 = \<lparr>max_frame_count = 1\<rparr>\<rparr>,
      configure_status = CpxStatus_Ok, start_status = CpxStatus_Ok\<rparr>"

section \<open>Properties\<close>

subsection \<open>The retry loop\<close>

lemma retry_loop_stop:
  "\<not> (fst r = snd r \<and> retries < maxRetries) \<Longrightarrow> retry_loop rd r retries = (r, retries)"
  by (subst retry_loop.simps) (simp only: if_False)

lemma retry_loop_again:
  "fst r = snd r \<Longrightarrow> retries < maxRetries \<Longrightarrow>
   retry_loop rd r retries = retry_loop rd (rd (Suc retries)) (Suc retries)"
  by (subst retry_loop.simps) simp

lemma retry_loop_timeout:
  "retries \<le> maxRetries \<Longrightarrow> r = rd retries \<Longrightarrow>
   (maxRetries \<le> snd (retry_loop rd r retries)) =
   (\<forall>k. retries \<le> k \<and> k < maxRetries \<longrightarrow> fst (rd k) = snd (rd k))"
proof (induction rd r retries rule: retry_loop.induct)
  case (1 rd r retries)
  show ?case
  proof (cases "fst r = snd r \<and> retries < maxRetries")
    case True
    then have "(maxRetries \<le> snd (retry_loop rd r retries)) =
               (\<forall>k. Suc retries \<le> k \<and> k < maxRetries \<longrightarrow> fst (rd k) = snd (rd k))"
      using "1.IH" by (simp add: retry_loop_again)
    also have "\<dots> = (\<forall>k. retries \<le> k \<and> k < maxRetries \<longrightarrow> fst (rd k) = snd (rd k))"
      using True "1.prems"(2) by (metis Suc_leD Suc_leI le_neq_implies_less)
    finally show ?thesis .
  next
    case False
    have stop: "retry_loop rd r retries = (r, retries)"
      by (rule retry_loop_stop [OF False])
    show ?thesis
    proof (cases "retries < maxRetries")
      case True
      then have "fst (rd retries) \<noteq> snd (rd retries)"
        using False "1.prems"(2) by simp
      then show ?thesis
        using True stop by auto
    next
      case False
      then show ?thesis
        using stop by auto
    qed
  qed
qed

lemma retry_loop_found:
  "r = rd retries \<Longrightarrow> retry_loop rd r retries = (r', n) \<Longrightarrow> n < maxRetries \<Longrightarrow>
   fst r' \<noteq> snd r' \<and> r' = rd n \<and> retries \<le> n \<and>
   (\<forall>k. retries \<le> k \<and> k < n \<longrightarrow> fst (rd k) = snd (rd k))"
proof (induction rd r retries rule: retry_loop.induct)
  case (1 rd r retries)
  show ?case
  proof (cases "fst r = snd r \<and> retries < maxRetries")
    case True
    then have "retry_loop rd (rd (Suc retries)) (Suc retries) = (r', n)"
      using "1.prems"(2) by (simp add: retry_loop_again)
    from "1.IH" [OF True refl this "1.prems"(3)] True "1.prems"(1)
    show ?thesis by (metis Suc_leD Suc_leI le_neq_implies_less)
  next
    case False
    have "retry_loop rd r retries = (r, retries)"
      by (rule retry_loop_stop [OF False])
    then have "r' = r" "n = retries"
      using "1.prems"(2) by simp_all
    then show ?thesis
      using False "1.prems"(1,3) by auto
  qed
qed

lemma poll_stream_timeout:
  "(maxRetries \<le> snd (poll_stream d s)) =
   (\<forall>k < maxRetries. fst (map_read d s k) = snd (map_read d s k))"
  using retry_loop_timeout [of 0 "map_read d s 0" "map_read d s"]
  by (simp add: poll_stream_def)

lemma poll_stream_found:
  "poll_stream d s = (r, n) \<Longrightarrow> n < maxRetries \<Longrightarrow>
   fst r \<noteq> snd r \<and> r = map_read d s n \<and>
   (\<forall>k < n. fst (map_read d s k) = snd (map_read d s k))"
  using retry_loop_found [of "map_read d s 0" "map_read d s" 0 r n]
  by (auto simp: poll_stream_def)

subsection \<open>Copies keep the buffers in shape\<close>

lemma shape_lengths: "shape c' = shape c \<Longrightarrow> length (imgs c') = length (imgs c)"
  by (auto simp: shape_def dest: map_eq_imp_length_eq)

lemma shape_dims: "shape c' = shape c \<Longrightarrow> ch < length (imgs c) \<Longrightarrow> dims (imgs c' ! ch) = dims (imgs c ! ch)"
proof -
  assume s: "shape c' = shape c" and l: "ch < length (imgs c)"
  then have "map dims (imgs c') ! ch = map dims (imgs c) ! ch" by (simp add: shape_def)
  then show ?thesis using l shape_lengths [OF s] by simp
qed

lemma buffer_fits_shape: "shape c' = shape c \<Longrightarrow> buffer_fits c' ch = buffer_fits c ch"
  using shape_dims [of c' c ch] shape_lengths [of c' c]
  by (auto simp: buffer_fits_def image_bytes_def dims_def)

lemma buffers_ready_shape: "shape c' = shape c \<Longrightarrow> buffers_ready c' = buffers_ready c"
  using buffer_fits_shape [of c' c] shape_lengths [of c' c]
  by (auto simp: buffers_ready_def shape_def)

lemma extends_refl: "extends c c []"
  by (simp add: extends_def)

lemma extends_trans: "extends c c1 es \<Longrightarrow> extends c1 c2 es' \<Longrightarrow> extends c c2 (es @ es')"
  by (simp add: extends_def)

lemma extends_emit: "extends c (emit e c) [e]"
  by (simp add: extends_def emit_def shape_def)

lemma memcpy_frame_ok:
  assumes "ch < length (imgs c)" "n \<le> length (pixels (imgs c ! ch))"
  shows "\<exists>c'. memcpy_frame ch a f n c = Inr c' \<and> extends c c' [Memcpy ch a n] \<and> inserts c' = inserts c"
proof -
  let ?b = "imgs c ! ch"
  let ?c' = "emit (Memcpy ch a n) (c\<lparr>imgs := (imgs c)[ch := ?b\<lparr>pixels := map (data f) [0..<n] @ drop n (pixels ?b)\<rparr>]\<rparr>)"
  have "memcpy_frame ch a f n c = Inr ?c'"
    using assms by (simp add: memcpy_frame_def vec_at_def)
  moreover have "map dims ((imgs c)[ch := ?b\<lparr>pixels := map (data f) [0..<n] @ drop n (pixels ?b)\<rparr>]) = map dims (imgs c)"
    using assms by (simp add: map_update dims_def list_update_same_conv)
  then have "extends c ?c' [Memcpy ch a n]"
    by (simp add: extends_def emit_def shape_def)
  moreover have "inserts ?c' = inserts c"
    by (simp add: emit_def)
  ultimately show ?thesis by blast
qed

lemma check_and_copy_ok:
  assumes "buffer_fits c ch"
  shows "\<exists>c'. check_and_copy ch a f sid i c = Inr c' \<and>
           extends c c' (check_events ch a f sid i (image_bytes (imgs c ! ch))) \<and> inserts c' = inserts c"
proof -
  let ?c1 = "if frame_id f \<noteq> sid + of_nat i
             then emit (LogMessage (MissedFrame (ch + 1) (sid + 1) (frame_id f))) c else c"
  have e1: "extends c ?c1 (if frame_id f \<noteq> sid + of_nat i
             then [LogMessage (MissedFrame (ch + 1) (sid + 1) (frame_id f))] else [])"
    by (simp add: extends_emit extends_refl)
  then have s: "shape ?c1 = shape c" by (simp add: extends_def)
  have i1: "imgs ?c1 = imgs c" "inserts ?c1 = inserts c" by (simp_all add: emit_def)
  have fit: "ch < length (imgs ?c1)" "image_bytes (imgs c ! ch) \<le> length (pixels (imgs ?c1 ! ch))"
    using assms i1 by (simp_all add: buffer_fits_def)
  from memcpy_frame_ok [OF fit, of a f] obtain c' where
    m: "memcpy_frame ch a f (image_bytes (imgs c ! ch)) ?c1 = Inr c'"
       "extends ?c1 c' [Memcpy ch a (image_bytes (imgs c ! ch))]" "inserts c' = inserts ?c1"
    by blast
  have "check_and_copy ch a f sid i c = Inr c'"
    using m(1) fit(1) i1 by (simp add: check_and_copy_def vec_at_def Let_def)
  moreover have "extends c c' (check_events ch a f sid i (image_bytes (imgs c ! ch)))"
    using extends_trans [OF e1 m(2)] by (simp add: check_events_def)
  ultimately show ?thesis using m(3) i1 by auto
qed

subsection \<open>The sink leaves the buffers and the driver alone\<close>

lemma unmapped_bytes_append: "unmapped_bytes s (xs @ ys) = unmapped_bytes s xs @ unmapped_bytes s ys"
  by (induction s xs rule: unmapped_bytes.induct) auto

lemma composited_append: "composited ch (xs @ ys) = composited ch xs @ composited ch ys"
  by (induction ch xs rule: composited.induct) auto

lemma missed_frames_append: "missed_frames (xs @ ys) = missed_frames xs @ missed_frames ys"
  by (induction xs rule: missed_frames.induct) auto

lemma sink_only_unmapped: "list_all is_sink_event es \<Longrightarrow> unmapped_bytes s es = []"
  by (induction s es rule: unmapped_bytes.induct) auto

lemma sink_only_composited: "list_all is_sink_event es \<Longrightarrow> composited ch es = []"
  by (induction ch es rule: composited.induct) auto

lemma sink_only_missed: "list_all is_sink_event es \<Longrightarrow> missed_frames es = []"
  by (induction es rule: missed_frames.induct) auto

lemma extends_inserts: "extends c (c\<lparr>inserts := n\<rparr>) []"
  by (simp add: extends_def shape_def)

lemma insert_channels_ok:
  "\<exists>es. extends c (insert_channels d md fid k bs c) es \<and> list_all is_sink_event es"
proof (induction bs arbitrary: k c)
  case Nil
  show ?case using extends_refl [of c] by (intro exI [of _ "[]"]) simp
next
  case (Cons b bs)
  let ?c1 = "emit (InsertImage (pixels b) (Width b) (Height b) (Depth b) md) (c\<lparr>inserts := Suc (inserts c)\<rparr>)"
  let ?c2 = "emit (LogMessage (FrameInserted (k + 1) fid)) ?c1"
  let ?pre = "[InsertImage (pixels b) (Width b) (Height b) (Depth b) md, LogMessage (FrameInserted (k + 1) fid)]"
  have e2: "extends c ?c2 ?pre"
    by (simp add: extends_def emit_def shape_def)
  show ?case
  proof (cases "\<not> stopOnOverflow c \<and> insert_image d (inserts c) = DEVICE_BUFFER_OVERFLOW")
    case True
    let ?c4 = "emit (LogMessage (BufferOverflowed (k + 1) fid)) (emit ClearImageBuffer ?c2)"
    have "insert_channels d md fid k (b # bs) c = ?c4"
      using True by (simp add: Let_def)
    moreover have "extends c ?c4 (?pre @ [ClearImageBuffer, LogMessage (BufferOverflowed (k + 1) fid)])"
      by (simp add: extends_def emit_def shape_def)
    ultimately show ?thesis
      by (intro exI [of _ "?pre @ [ClearImageBuffer, LogMessage (BufferOverflowed (k + 1) fid)]"]) simp
  next
    case False
    then have eq: "insert_channels d md fid k (b # bs) c = insert_channels d md fid (k + 1) bs ?c2"
      by (auto simp: Let_def)
    from Cons.IH [of ?c2 "k + 1"] obtain es where
      es: "extends ?c2 (insert_channels d md fid (k + 1) bs ?c2) es" "list_all is_sink_event es"
      by blast
    have "extends c (insert_channels d md fid k (b # bs) c) (?pre @ es)"
      unfolding eq by (rule extends_trans [OF e2 es(1)])
    then show ?thesis using es(2)
      by (intro exI [of _ "?pre @ es"]) simp
  qed
qed

lemma insert_current_ok:
  assumes "currentCamera c < length (imgs c)"
  shows "\<exists>c' es. insert_current d md fid c = Inr c' \<and> extends c c' es \<and> list_all is_sink_event es"
proof -
  let ?b = "imgs c ! currentCamera c"
  let ?ins = "InsertImage (pixels ?b) (Width ?b) (Height ?b) (Depth ?b) md"
  let ?c1 = "emit ?ins (c\<lparr>inserts := Suc (inserts c)\<rparr>)"
  let ?c2 = "emit (LogMessage (FrameInserted (currentCamera c + 1) fid)) ?c1"
  show ?thesis
  proof (cases "\<not> stopOnOverflow c \<and> insert_image d (inserts c) = DEVICE_BUFFER_OVERFLOW")
    case True
    let ?c3 = "emit ClearImageBuffer ?c2"
    let ?c4 = "emit ?ins (?c3\<lparr>inserts := Suc (inserts ?c3)\<rparr>)"
    let ?c5 = "emit (LogMessage (BufferOverflowed (currentCamera c + 1) fid)) ?c4"
    let ?es = "[?ins, LogMessage (FrameInserted (currentCamera c + 1) fid), ClearImageBuffer, ?ins,
                LogMessage (BufferOverflowed (currentCamera c + 1) fid)]"
    have "insert_current d md fid c = Inr ?c5"
      using True assms by (simp add: insert_current_def vec_at_def Let_def)
    moreover have "extends c ?c5 ?es"
      by (simp add: extends_def emit_def shape_def)
    ultimately show ?thesis
      by (intro exI [of _ ?c5] exI [of _ ?es]) simp
  next
    case False
    let ?es = "[?ins, LogMessage (FrameInserted (currentCamera c + 1) fid)]"
    have "insert_current d md fid c = Inr ?c2"
      using False assms by (auto simp: insert_current_def vec_at_def Let_def)
    moreover have "extends c ?c2 ?es"
      by (simp add: extends_def emit_def shape_def)
    ultimately show ?thesis
      by (intro exI [of _ ?c2] exI [of _ ?es]) simp
  qed
qed

subsection \<open>One round of the frame loop\<close>

lemma check_events_composited:
  "composited ch' (check_events ch a f sid i n) = (if ch = ch' then [a] else [])"
  by (simp add: check_events_def)

lemma check_events_unmapped: "unmapped_bytes s (check_events ch a f sid i n) = []"
  by (simp add: check_events_def)

lemma check_events_missed:
  "missed_frames (check_events ch a f sid i n) =
     (if frame_id f \<noteq> sid + of_nat i then [(ch + 1, sid + 1, frame_id f)] else [])"
  by (simp add: check_events_def)

lemma check_events_sink_calls: "sink_calls (check_events ch a f sid i n) = []"
  by (simp add: check_events_def)

lemma extends_flags:
  "extends c c' es \<Longrightarrow>
   isDual c' = isDual c \<and> multiChannel c' = multiChannel c \<and> stopOnOverflow c' = stopOnOverflow c \<and>
   currentCamera c' = currentCamera c \<and> length (imgs c') = length (imgs c)"
  by (auto simp: extends_def shape_def dest: map_eq_imp_length_eq)

lemma extends_ready: "extends c c' es \<Longrightarrow> buffers_ready c' = buffers_ready c"
  using buffers_ready_shape [of c' c] by (simp add: extends_def)

lemma extends_fits: "extends c c' es \<Longrightarrow> buffer_fits c' ch = buffer_fits c ch"
  using buffer_fits_shape [of c' c ch] by (simp add: extends_def)

lemma frame_step_ok:
  assumes ready: "buffers_ready (cam st)"
  shows "\<exists>c' es. frame_step d beg1 beg2 sid i st =
             Inr \<lparr>ptr1 = ptr1 st + bytes_of_frame (mem d beg1) * sizeof_VideoFrame d,
                  ptr2 = (if isDual (cam st)
                          then ptr2 st + bytes_of_frame (mem d beg2) * sizeof_VideoFrame d
                          else ptr2 st),
                  cam = c'\<rparr> \<and>
           extends (cam st) c' es \<and>
           composited 0 es = [ptr1 st] \<and>
           composited 1 es = (if isDual (cam st) then [ptr2 st] else []) \<and>
           (\<forall>s. unmapped_bytes s es = []) \<and>
           missed_frames es = missed_at d sid i (ptr1 st) (ptr2 st) (isDual (cam st))"
proof -
  let ?c = "cam st"
  let ?f1 = "mem d (ptr1 st)"
  let ?f2 = "mem d (ptr2 st)"
  have fit0: "buffer_fits ?c 0"
    using ready by (simp add: buffers_ready_def)
  from check_and_copy_ok [OF fit0, of "ptr1 st" ?f1 sid i] obtain c1 where
    c1: "check_and_copy 0 (ptr1 st) ?f1 sid i ?c = Inr c1"
        "extends ?c c1 (check_events 0 (ptr1 st) ?f1 sid i (image_bytes (imgs ?c ! 0)))"
    by blast
  let ?es1 = "check_events 0 (ptr1 st) ?f1 sid i (image_bytes (imgs ?c ! 0))"
  note fl1 = extends_flags [OF c1(2)]
  obtain c2 es2 where
    c2: "(if isDual c1 then check_and_copy 1 (ptr2 st) ?f2 sid i c1 else Inr c1) = Inr c2"
        "extends c1 c2 es2"
        "es2 = (if isDual ?c then check_events 1 (ptr2 st) ?f2 sid i (image_bytes (imgs c1 ! 1)) else [])"
  proof (cases "isDual ?c")
    case True
    then have "buffer_fits c1 1"
      using ready extends_fits [OF c1(2), of 1] by (simp add: buffers_ready_def)
    from check_and_copy_ok [OF this, of "ptr2 st" ?f2 sid i] True fl1 that
    show ?thesis by auto
  next
    case False
    then show ?thesis
      using that [of c1 "[]"] fl1 extends_refl [of c1] by simp
  qed
  note e12 = extends_trans [OF c1(2) c2(2)]
  note fl2 = extends_flags [OF e12]
  obtain c3 es3 where
    c3: "(if multiChannel c2
          then Inr (insert_channels d (frame_metadata ?f1) (frame_id ?f1) 0 (imgs c2) c2)
          else insert_current d (frame_metadata ?f1) (frame_id ?f1) c2) = Inr c3"
        "extends c2 c3 es3" "list_all is_sink_event es3"
  proof (cases "multiChannel c2")
    case True
    then show ?thesis
      using insert_channels_ok [of c2 d "frame_metadata ?f1" "frame_id ?f1" 0 "imgs c2"] that
      by auto
  next
    case False
    then have "currentCamera c2 < length (imgs c2)"
      using ready fl2 by (simp add: buffers_ready_def)
    from insert_current_ok [OF this, of d "frame_metadata ?f1" "frame_id ?f1"] False that
    show ?thesis by auto
  qed
  note e13 = extends_trans [OF e12 c3(2)]
  note fl3 = extends_flags [OF e13]
  have res: "frame_step d beg1 beg2 sid i st =
             Inr \<lparr>ptr1 = ptr1 st + bytes_of_frame (mem d beg1) * sizeof_VideoFrame d,
                  ptr2 = (if isDual (cam st)
                          then ptr2 st + bytes_of_frame (mem d beg2) * sizeof_VideoFrame d
                          else ptr2 st),
                  cam = c3\<rparr>"
    using c1(1) c2(1) c3(1) fl3 by (simp add: frame_step_def Let_def)
  let ?es = "(?es1 @ es2) @ es3"
  have p0: "composited 0 ?es = [ptr1 st]"
    using c3(3) by (simp add: composited_append check_events_composited sink_only_composited c2(3))
  have p1: "composited 1 ?es = (if isDual (cam st) then [ptr2 st] else [])"
    using c3(3) by (simp add: composited_append check_events_composited sink_only_composited c2(3))
  have pu: "\<forall>s. unmapped_bytes s ?es = []"
    using c3(3) by (simp add: unmapped_bytes_append check_events_unmapped sink_only_unmapped c2(3))
  have pm: "missed_frames ?es = missed_at d sid i (ptr1 st) (ptr2 st) (isDual (cam st))"
    using c3(3) by (simp add: missed_frames_append check_events_missed sink_only_missed c2(3) missed_at_def)
  show ?thesis
    using res e13 p0 p1 pu pm by blast
qed

subsection \<open>The single-channel sink\<close>

lemma sink_calls_append: "sink_calls (xs @ ys) = sink_calls xs @ sink_calls ys"
  by (induction xs rule: sink_calls.induct) auto

lemma insert_current_exact:
  assumes "currentCamera c < length (imgs c)"
  shows "\<exists>c'. insert_current d md fid c = Inr c' \<and>
           sink_calls (effects c') = sink_calls (effects c) @
             (let b = imgs c ! currentCamera c;
                  ins = InsertImage (pixels b) (Width b) (Height b) (Depth b) md
              in if \<not> stopOnOverflow c \<and> insert_image d (inserts c) = DEVICE_BUFFER_OVERFLOW
                 then [ins, ClearImageBuffer, ins] else [ins])"
  using assms
  by (auto simp: insert_current_def vec_at_def Let_def emit_def sink_calls_append)

lemma frame_copies_ok:
  assumes ready: "buffers_ready c"
  shows "\<exists>c2 es. (case check_and_copy 0 pa fa sid i c of
                     Inl e \<Rightarrow> Inl e
                   | Inr c1 \<Rightarrow> if isDual c1 then check_and_copy 1 pb fb sid i c1 else Inr c1) = Inr c2 \<and>
           extends c c2 es \<and> inserts c2 = inserts c \<and> sink_calls es = []"
proof -
  have fit0: "buffer_fits c 0"
    using ready by (simp add: buffers_ready_def)
  from check_and_copy_ok [OF fit0, of pa fa sid i] obtain c1 where
    c1: "check_and_copy 0 pa fa sid i c = Inr c1"
        "extends c c1 (check_events 0 pa fa sid i (image_bytes (imgs c ! 0)))"
        "inserts c1 = inserts c"
    by blast
  note fl1 = extends_flags [OF c1(2)]
  show ?thesis
  proof (cases "isDual c")
    case True
    then have "buffer_fits c1 1"
      using ready extends_fits [OF c1(2), of 1] by (simp add: buffers_ready_def)
    from check_and_copy_ok [OF this, of pb fb sid i] obtain c2 where
      c2: "check_and_copy 1 pb fb sid i c1 = Inr c2"
          "extends c1 c2 (check_events 1 pb fb sid i (image_bytes (imgs c1 ! 1)))"
          "inserts c2 = inserts c1"
      by blast
    show ?thesis
      using c1(1,3) c2(1,3) True fl1 extends_trans [OF c1(2) c2(2)]
      by (intro exI [of _ c2] exI) (auto simp: sink_calls_append check_events_sink_calls)
  next
    case False
    then show ?thesis
      using c1 fl1
      by (intro exI [of _ c1] exI) (auto simp: check_events_sink_calls)
  qed
qed

text \<open>
  C7. In single-channel mode with \<open>stopOnOverflow\<close> false, one round of the frame loop
  calls the sink as follows: one insert; and, exactly when that insert reports a buffer
  overflow, a clear of the downstream buffer followed by one more insert with the same
  arguments. The status of the second insert is not looked at, and no other status of the
  first insert leads to a second call.
\<close>

theorem single_channel_overflow_retries_once:
  assumes "\<not> multiChannel (cam st)" and "\<not> stopOnOverflow (cam st)" and "buffers_ready (cam st)"
  shows "\<exists>st' (b::ImgBuffer). frame_step d beg1 beg2 sid i st = Inr st' \<and>
           sink_calls (effects (cam st')) = sink_calls (effects (cam st)) @
             (let ins = InsertImage (pixels b) (Width b) (Height b) (Depth b)
                          (frame_metadata (mem d (ptr1 st)))
              in if insert_image d (inserts (cam st)) = DEVICE_BUFFER_OVERFLOW
                 then [ins, ClearImageBuffer, ins] else [ins])"
proof -
  let ?f1 = "mem d (ptr1 st)"
  from frame_copies_ok [OF assms(3), where pa = "ptr1 st" and fa = ?f1 and sid = sid and i = i
      and pb = "ptr2 st" and fb = "mem d (ptr2 st)"]
  obtain c2 es where
    c2: "(case check_and_copy 0 (ptr1 st) ?f1 sid i (cam st) of
            Inl e \<Rightarrow> Inl e
          | Inr c1 \<Rightarrow> if isDual c1 then check_and_copy 1 (ptr2 st) (mem d (ptr2 st)) sid i c1
                      else Inr c1) = Inr c2"
        "extends (cam st) c2 es" "inserts c2 = inserts (cam st)" "sink_calls es = []"
    by blast
  note fl = extends_flags [OF c2(2)]
  have cur: "currentCamera c2 < length (imgs c2)"
    using assms(1,3) fl by (simp add: buffers_ready_def)
  from insert_current_exact [OF cur, of d "frame_metadata ?f1" "frame_id ?f1"]
  obtain c3 where
    c3: "insert_current d (frame_metadata ?f1) (frame_id ?f1) c2 = Inr c3"
        "sink_calls (effects c3) = sink_calls (effects c2) @
           (let b = imgs c2 ! currentCamera c2;
                ins = InsertImage (pixels b) (Width b) (Height b) (Depth b) (frame_metadata ?f1)
            in if \<not> stopOnOverflow c2 \<and> insert_image d (inserts c2) = DEVICE_BUFFER_OVERFLOW
               then [ins, ClearImageBuffer, ins] else [ins])"
    by blast
  have eff: "sink_calls (effects c2) = sink_calls (effects (cam st))"
    using c2(2,4) by (simp add: extends_def sink_calls_append)
  obtain st' where st': "frame_step d beg1 beg2 sid i st = Inr st'" "cam st' = c3"
    using c2(1) c3(1) assms(1) fl
    by (auto simp: frame_step_def Let_def split: sum.splits)
  let ?b = "imgs c2 ! currentCamera c2"
  have "frame_step d beg1 beg2 sid i st = Inr st' \<and>
        sink_calls (effects (cam st')) = sink_calls (effects (cam st)) @
          (let ins = InsertImage (pixels ?b) (Width ?b) (Height ?b) (Depth ?b)
                       (frame_metadata (mem d (ptr1 st)))
           in if insert_image d (inserts (cam st)) = DEVICE_BUFFER_OVERFLOW
              then [ins, ClearImageBuffer, ins] else [ins])"
    using st' c3(2) eff fl assms(2) c2(3) by (simp add: Let_def)
  then show ?thesis by blast
qed

lemma single_camera_ready: "buffers_ready single_camera"
  by (simp add: single_camera_def setupBuffers_def Resize_def buffers_ready_def buffer_fits_def
      image_bytes_def)

theorem single_channel_overflow_retries_once_witness:
  "\<not> multiChannel single_camera \<and> \<not> stopOnOverflow single_camera \<and> buffers_ready single_camera \<and>
   insert_image full_sink_driver (inserts single_camera) = DEVICE_BUFFER_OVERFLOW \<and>
   (\<exists>st' (b::ImgBuffer).
      frame_step full_sink_driver 4096 0 100 0 \<lparr>ptr1 = 4096, ptr2 = 0, cam = single_camera\<rparr> = Inr st' \<and>
      sink_calls (effects (cam st')) =
        [InsertImage (pixels b) (Width b) (Height b) (Depth b) \<lparr>CpxFrameId = 100, CpxTimeStamp = 0\<rparr>,
         ClearImageBuffer,
         InsertImage (pixels b) (Width b) (Height b) (Depth b) \<lparr>CpxFrameId = 100, CpxTimeStamp = 0\<rparr>])"
proof -
  have flags: "\<not> multiChannel single_camera" "\<not> stopOnOverflow single_camera"
    "effects single_camera = []" "inserts single_camera = 0"
    by (simp_all add: single_camera_def setupBuffers_def)
  have drv: "insert_image full_sink_driver 0 = DEVICE_BUFFER_OVERFLOW"
    "frame_metadata (mem full_sink_driver 4096) = \<lparr>CpxFrameId = 100, CpxTimeStamp = 0\<rparr>"
    by (simp_all add: full_sink_driver_def frame92_def frame_metadata_def)
  show ?thesis
    using single_channel_overflow_retries_once [where st = "\<lparr>ptr1 = 4096, ptr2 = 0, cam = single_camera\<rparr>"
        and d = full_sink_driver and ?beg1.0 = 4096 and ?beg2.0 = 0 and sid = 100 and i = 0]
      flags drv single_camera_ready
    by (simp add: Let_def)
qed

subsection \<open>The frame loop\<close>

lemma frame_loop_ok:
  assumes "buffers_ready (cam st)"
  shows "\<exists>c' es.
           frame_loop (frame_step d beg1 beg2 sid) ns st =
             Inr \<lparr>ptr1 = ptr1 st + of_nat (length ns) * (bytes_of_frame (mem d beg1) * sizeof_VideoFrame d),
                  ptr2 = (if isDual (cam st)
                          then ptr2 st + of_nat (length ns) * (bytes_of_frame (mem d beg2) * sizeof_VideoFrame d)
                          else ptr2 st),
                  cam = c'\<rparr> \<and>
           extends (cam st) c' es \<and>
           composited 0 es =
             map (\<lambda>j. ptr1 st + of_nat j * (bytes_of_frame (mem d beg1) * sizeof_VideoFrame d)) [0..<length ns] \<and>
           composited 1 es =
             (if isDual (cam st)
              then map (\<lambda>j. ptr2 st + of_nat j * (bytes_of_frame (mem d beg2) * sizeof_VideoFrame d)) [0..<length ns]
              else []) \<and>
           (\<forall>s. unmapped_bytes s es = []) \<and>
           missed_frames es =
             concat (map (\<lambda>j. missed_at d sid (ns ! j)
                            (ptr1 st + of_nat j * (bytes_of_frame (mem d beg1) * sizeof_VideoFrame d))
                            (ptr2 st + of_nat j * (bytes_of_frame (mem d beg2) * sizeof_VideoFrame d))
                            (isDual (cam st))) [0..<length ns])"
  using assms
proof (induction ns arbitrary: st)
  case Nil
  have "st = \<lparr>ptr1 = ptr1 st, ptr2 = ptr2 st, cam = cam st\<rparr>" by simp
  then show ?case
    using extends_refl [of "cam st"]
    by (intro exI [of _ "cam st"] exI [of _ "[]"]) simp
next
  case (Cons i ns)
  let ?s1 = "bytes_of_frame (mem d beg1) * sizeof_VideoFrame d"
  let ?s2 = "bytes_of_frame (mem d beg2) * sizeof_VideoFrame d"
  from frame_step_ok [OF Cons.prems, of d beg1 beg2 sid i] obtain c1 es1 where
    step: "frame_step d beg1 beg2 sid i st =
             Inr \<lparr>ptr1 = ptr1 st + ?s1,
                  ptr2 = (if isDual (cam st) then ptr2 st + ?s2 else ptr2 st), cam = c1\<rparr>"
      and e1: "extends (cam st) c1 es1"
      and p1: "composited 0 es1 = [ptr1 st]"
        "composited 1 es1 = (if isDual (cam st) then [ptr2 st] else [])"
        "\<forall>s. unmapped_bytes s es1 = []"
        "missed_frames es1 = missed_at d sid i (ptr1 st) (ptr2 st) (isDual (cam st))"
    by blast
  let ?st1 = "\<lparr>ptr1 = ptr1 st + ?s1,
               ptr2 = (if isDual (cam st) then ptr2 st + ?s2 else ptr2 st), cam = c1\<rparr>"
  have r1: "buffers_ready (cam ?st1)"
    using Cons.prems extends_ready [OF e1] by simp
  note fl = extends_flags [OF e1]
  from Cons.IH [OF r1] obtain c' es2 where
    loop: "frame_loop (frame_step d beg1 beg2 sid) ns ?st1 =
             Inr \<lparr>ptr1 = ptr1 ?st1 + of_nat (length ns) * ?s1,
                  ptr2 = (if isDual (cam ?st1) then ptr2 ?st1 + of_nat (length ns) * ?s2 else ptr2 ?st1),
                  cam = c'\<rparr>"
      and e2: "extends (cam ?st1) c' es2"
      and p2: "composited 0 es2 = map (\<lambda>j. ptr1 ?st1 + of_nat j * ?s1) [0..<length ns]"
        "composited 1 es2 =
           (if isDual (cam ?st1) then map (\<lambda>j. ptr2 ?st1 + of_nat j * ?s2) [0..<length ns] else [])"
        "\<forall>s. unmapped_bytes s es2 = []"
        "missed_frames es2 =
           concat (map (\<lambda>j. missed_at d sid (ns ! j) (ptr1 ?st1 + of_nat j * ?s1)
                          (ptr2 ?st1 + of_nat j * ?s2) (isDual (cam ?st1))) [0..<length ns])"
    by blast
  have e: "extends (cam st) c' (es1 @ es2)"
    using extends_trans [OF e1] e2 by simp
  have res: "frame_loop (frame_step d beg1 beg2 sid) (i # ns) st =
             Inr \<lparr>ptr1 = ptr1 st + of_nat (length (i # ns)) * ?s1,
                  ptr2 = (if isDual (cam st) then ptr2 st + of_nat (length (i # ns)) * ?s2 else ptr2 st),
                  cam = c'\<rparr>"
    using step loop fl by (simp add: algebra_simps)
  have q0: "composited 0 (es1 @ es2) = map (\<lambda>j. ptr1 st + of_nat j * ?s1) [0..<length (i # ns)]"
    using p1(1) p2(1) by (simp add: composited_append map_upt_Suc algebra_simps del: upt_Suc)
  have q1: "composited 1 (es1 @ es2) =
            (if isDual (cam st) then map (\<lambda>j. ptr2 st + of_nat j * ?s2) [0..<length (i # ns)] else [])"
    using p1(2) p2(2) fl by (simp add: composited_append map_upt_Suc algebra_simps del: upt_Suc)
  have qu: "\<forall>s. unmapped_bytes s (es1 @ es2) = []"
    using p1(3) p2(3) by (simp add: unmapped_bytes_append)
  have p2': "missed_frames es2 =
             concat (map (\<lambda>j. missed_at d sid (ns ! j) (ptr1 st + of_nat (Suc j) * ?s1)
                            (ptr2 st + of_nat (Suc j) * ?s2) (isDual (cam st))) [0..<length ns])"
  proof (cases "isDual (cam st)")
    case True
    then show ?thesis
      using p2(4) fl by (simp add: algebra_simps)
  next
    case False
    then show ?thesis
      using p2(4) fl by (simp add: missed_at_def algebra_simps)
  qed
  have qm: "missed_frames (es1 @ es2) =
            concat (map (\<lambda>j. missed_at d sid ((i # ns) ! j) (ptr1 st + of_nat j * ?s1)
                           (ptr2 st + of_nat j * ?s2) (isDual (cam st))) [0..<length (i # ns)])"
    using p1(4) by (simp add: missed_frames_append map_upt_Suc p2' del: upt_Suc)
  show ?case
    using res e q0 q1 qu qm by blast
qed

subsection \<open>A whole read\<close>

lemma deliver_batch_ok:
  assumes "buffers_ready c"
  shows "\<exists>c' es.
           deliver_batch d c beg1 beg2 sid n = Inr (DEVICE_OK, sint (ucast n :: 32 word), c') \<and>
           extends c c' es \<and>
           composited 0 es =
             map (\<lambda>j. beg1 + of_nat j * (bytes_of_frame (mem d beg1) * sizeof_VideoFrame d)) [0..<unat n] \<and>
           composited 1 es =
             (if isDual c
              then map (\<lambda>j. beg2 + of_nat j * (bytes_of_frame (mem d beg2) * sizeof_VideoFrame d)) [0..<unat n]
              else []) \<and>
           unmapped_bytes 0 es = [n * bytes_of_frame (mem d beg1)] \<and>
           unmapped_bytes 1 es = (if isDual c \<and> beg2 \<noteq> 0 then [n * bytes_of_frame (mem d beg2)] else []) \<and>
           missed_frames es =
             concat (map (\<lambda>j. missed_at d sid j
                            (beg1 + of_nat j * (bytes_of_frame (mem d beg1) * sizeof_VideoFrame d))
                            (beg2 + of_nat j * (bytes_of_frame (mem d beg2) * sizeof_VideoFrame d))
                            (isDual c)) [0..<unat n])"
proof -
  let ?st = "\<lparr>ptr1 = beg1, ptr2 = beg2, cam = c\<rparr>"
  let ?s1 = "bytes_of_frame (mem d beg1) * sizeof_VideoFrame d"
  let ?s2 = "bytes_of_frame (mem d beg2) * sizeof_VideoFrame d"
  have "buffers_ready (cam ?st)" using assms by simp
  from frame_loop_ok [OF this, of d beg1 beg2 sid "[0..<unat n]"] obtain c1 es1 where
    loop: "frame_loop (frame_step d beg1 beg2 sid) [0..<unat n] ?st =
             Inr \<lparr>ptr1 = beg1 + of_nat (unat n) * ?s1,
                  ptr2 = (if isDual c then beg2 + of_nat (unat n) * ?s2 else beg2), cam = c1\<rparr>"
      and e1: "extends c c1 es1"
      and p: "composited 0 es1 = map (\<lambda>j. beg1 + of_nat j * ?s1) [0..<unat n]"
        "composited 1 es1 = (if isDual c then map (\<lambda>j. beg2 + of_nat j * ?s2) [0..<unat n] else [])"
        "\<forall>s. unmapped_bytes s es1 = []"
        "missed_frames es1 =
           concat (map (\<lambda>j. missed_at d sid ([0..<unat n] ! j) (beg1 + of_nat j * ?s1)
                          (beg2 + of_nat j * ?s2) (isDual c)) [0..<unat n])"
    by auto
  note fl = extends_flags [OF e1]
  let ?u1 = "UnmapRead 0 (n * bytes_of_frame (mem d beg1))"
  let ?es2 = "?u1 # (if isDual c \<and> beg2 \<noteq> 0 then [UnmapRead 1 (n * bytes_of_frame (mem d beg2))] else [])"
  let ?c2 = "emit ?u1 c1"
  let ?c3 = "if isDual ?c2 \<and> beg2 \<noteq> 0
             then emit (UnmapRead 1 (n * bytes_of_frame (mem d beg2))) ?c2 else ?c2"
  have res: "deliver_batch d c beg1 beg2 sid n = Inr (DEVICE_OK, sint (ucast n :: 32 word), ?c3)"
    using loop by (simp add: deliver_batch_def Let_def)
  have d2: "isDual ?c2 = isDual c"
    using fl by (simp add: emit_def)
  have e2: "extends c1 ?c3 ?es2"
    using d2 by (simp add: extends_def emit_def shape_def)
  have e: "extends c ?c3 (es1 @ ?es2)"
    by (rule extends_trans [OF e1 e2])
  have m: "missed_frames (es1 @ ?es2) =
           concat (map (\<lambda>j. missed_at d sid j (beg1 + of_nat j * ?s1) (beg2 + of_nat j * ?s2) (isDual c))
                    [0..<unat n])"
  proof -
    have meq: "map (\<lambda>j. missed_at d sid ([0..<unat n] ! j) (beg1 + of_nat j * ?s1) (beg2 + of_nat j * ?s2) (isDual c))
            [0..<unat n] =
          map (\<lambda>j. missed_at d sid j (beg1 + of_nat j * ?s1) (beg2 + of_nat j * ?s2) (isDual c)) [0..<unat n]"
      by (rule map_cong) simp_all
    have "missed_frames ?es2 = []" by simp
    then show ?thesis
      unfolding missed_frames_append p(4) meq by simp
  qed
  have "composited 0 (es1 @ ?es2) = map (\<lambda>j. beg1 + of_nat j * ?s1) [0..<unat n]"
    "composited 1 (es1 @ ?es2) = (if isDual c then map (\<lambda>j. beg2 + of_nat j * ?s2) [0..<unat n] else [])"
    "unmapped_bytes 0 (es1 @ ?es2) = [n * bytes_of_frame (mem d beg1)]"
    "unmapped_bytes 1 (es1 @ ?es2) = (if isDual c \<and> beg2 \<noteq> 0 then [n * bytes_of_frame (mem d beg2)] else [])"
    using p(1,2,3) by (simp_all add: composited_append unmapped_bytes_append)
  then show ?thesis
    using res e m by blast
qed

lemma poll_stream_split: "poll_stream d s = (mapped_range d s, snd (poll_stream d s))"
  by (simp add: mapped_range_def)

lemma readLiveFrames_ok:
  assumes "live_ready d c"
  shows "\<exists>c' es.
           readLiveFrames d c = Inr (DEVICE_OK, sint (ucast (batch_size d c) :: 32 word), c') \<and>
           extends c c' es \<and>
           composited 0 es =
             map (\<lambda>j. fst (mapped_range d 0) + of_nat j * (frame_stride d 0 * sizeof_VideoFrame d))
               [0..<unat (batch_size d c)] \<and>
           composited 1 es =
             (if isDual c
              then map (\<lambda>j. fst (mapped_range d 1) + of_nat j * (frame_stride d 1 * sizeof_VideoFrame d))
                     [0..<unat (batch_size d c)]
              else []) \<and>
           unmapped_bytes 0 es = [batch_size d c * frame_stride d 0] \<and>
           unmapped_bytes 1 es =
             (if isDual c \<and> fst (mapped_range d 1) \<noteq> 0 then [batch_size d c * frame_stride d 1] else []) \<and>
           missed_frames es =
             concat (map (\<lambda>j. missed_at d (frame_id (mem d (fst (mapped_range d 0)))) j
                            (fst (mapped_range d 0) + of_nat j * (frame_stride d 0 * sizeof_VideoFrame d))
                            (second_begin d c +
                               of_nat j * (bytes_of_frame (mem d (second_begin d c)) * sizeof_VideoFrame d))
                            (isDual c)) [0..<unat (batch_size d c)])"
proof -
  have ready: "buffers_ready c" and p0: "\<not> maxRetries \<le> snd (poll_stream d 0)"
    and s0: "bytes_of_frame (mem d (fst (mapped_range d 0))) \<noteq> 0"
    using assms by (simp_all add: live_ready_def polled_def frame_stride_def)
  obtain beg1 end1 where r1: "mapped_range d 0 = (beg1, end1)" by (cases "mapped_range d 0")
  obtain beg2 end2 where r2: "mapped_range d 1 = (beg2, end2)" by (cases "mapped_range d 1")
  have ps0: "poll_stream d 0 = ((beg1, end1), snd (poll_stream d 0))"
    using poll_stream_split [of d 0] r1 by simp
  have ps1: "poll_stream d 1 = ((beg2, end2), snd (poll_stream d 1))"
    using poll_stream_split [of d 1] r2 by simp
  show ?thesis
  proof (cases "isDual c")
    case True
    then have p1: "\<not> maxRetries \<le> snd (poll_stream d 1)"
      and s1: "bytes_of_frame (mem d (fst (mapped_range d 1))) \<noteq> 0"
      using assms by (simp_all add: live_ready_def polled_def frame_stride_def)
    have eq: "readLiveFrames d c =
              deliver_batch d c beg1 beg2 (frame_id (mem d beg1)) (batch_size d c)"
      using True p0 s0 p1 s1 r1 r2
      by (subst readLiveFrames_def, subst ps0, subst ps1)
         (simp add: Let_def batch_size_def available_def range_bytes_def frame_stride_def ConsumedBytes_def)
    from deliver_batch_ok [OF ready, of d beg1 beg2 "frame_id (mem d beg1)" "batch_size d c"]
    obtain c' es where
      "deliver_batch d c beg1 beg2 (frame_id (mem d beg1)) (batch_size d c) =
         Inr (DEVICE_OK, sint (ucast (batch_size d c) :: 32 word), c')"
      "extends c c' es"
      "composited 0 es =
         map (\<lambda>j. beg1 + of_nat j * (bytes_of_frame (mem d beg1) * sizeof_VideoFrame d))
           [0..<unat (batch_size d c)]"
      "composited 1 es =
         map (\<lambda>j. beg2 + of_nat j * (bytes_of_frame (mem d beg2) * sizeof_VideoFrame d))
           [0..<unat (batch_size d c)]"
      "unmapped_bytes 0 es = [batch_size d c * bytes_of_frame (mem d beg1)]"
      "unmapped_bytes 1 es = (if beg2 \<noteq> 0 then [batch_size d c * bytes_of_frame (mem d beg2)] else [])"
      "missed_frames es =
         concat (map (\<lambda>j. missed_at d (frame_id (mem d beg1)) j
                        (beg1 + of_nat j * (bytes_of_frame (mem d beg1) * sizeof_VideoFrame d))
                        (beg2 + of_nat j * (bytes_of_frame (mem d beg2) * sizeof_VideoFrame d))
                        (isDual c)) [0..<unat (batch_size d c)])"
      using True by auto
    then show ?thesis
      using eq True r1 r2
      by (intro exI [of _ c'] exI [of _ es]) (simp add: frame_stride_def second_begin_def)
  next
    case False
    have eq: "readLiveFrames d c =
              deliver_batch d c beg1 0 (frame_id (mem d beg1)) (batch_size d c)"
      using False p0 s0 r1
      by (subst readLiveFrames_def, subst ps0)
         (simp add: Let_def batch_size_def available_def range_bytes_def frame_stride_def ConsumedBytes_def)
    from deliver_batch_ok [OF ready, of d beg1 0 "frame_id (mem d beg1)" "batch_size d c"]
    obtain c' es where
      "deliver_batch d c beg1 0 (frame_id (mem d beg1)) (batch_size d c) =
         Inr (DEVICE_OK, sint (ucast (batch_size d c) :: 32 word), c')"
      "extends c c' es"
      "composited 0 es =
         map (\<lambda>j. beg1 + of_nat j * (bytes_of_frame (mem d beg1) * sizeof_VideoFrame d))
           [0..<unat (batch_size d c)]"
      "composited 1 es = []"
      "unmapped_bytes 0 es = [batch_size d c * bytes_of_frame (mem d beg1)]"
      "unmapped_bytes 1 es = []"
      "missed_frames es =
         concat (map (\<lambda>j. missed_at d (frame_id (mem d beg1)) j
                        (beg1 + of_nat j * (bytes_of_frame (mem d beg1) * sizeof_VideoFrame d))
                        (0 + of_nat j * (bytes_of_frame (mem d 0) * sizeof_VideoFrame d))
                        (isDual c)) [0..<unat (batch_size d c)])"
      using False by auto
    then show ?thesis
      using eq False r1
      by (intro exI [of _ c'] exI [of _ es]) (simp add: frame_stride_def second_begin_def)
  qed
qed

lemma poll_stream_first:
  "fst (map_read d s 0) \<noteq> snd (map_read d s 0) \<Longrightarrow> poll_stream d s = (map_read d s 0, 0)"
  by (simp add: poll_stream_def retry_loop_stop)

subsection \<open>The scenarios\<close>

lemma dual_camera_ready: "buffers_ready dual_camera"
  by (simp add: dual_camera_def setupBuffers_def Resize_def buffers_ready_def buffer_fits_def
      image_bytes_def)

lemma dual_camera_flags: "isDual dual_camera" "effects dual_camera = []"
  by (simp_all add: dual_camera_def setupBuffers_def)



lemma scenarioA_polls:
  "poll_stream scenarioA 0 = ((4096, 4556), 0)" "poll_stream scenarioA (Suc 0) = ((8192, 8652), 0)"
  by (simp_all add: poll_stream_first scenarioA_def)

lemma scenarioA_available:
  "polled scenarioA 0" "polled scenarioA (Suc 0)"
  "frame_stride scenarioA 0 = 92" "frame_stride scenarioA (Suc 0) = 92"
  "available scenarioA 0 = 5" "available scenarioA (Suc 0) = 5"
  "mapped_range scenarioA 0 = (4096, 4556)" "mapped_range scenarioA (Suc 0) = (8192, 8652)"
  by (simp_all add: polled_def frame_stride_def available_def range_bytes_def mapped_range_def scenarioA_polls
      maxRetries_def, simp_all add: scenarioA_def ring_mem_def frame92_def)

lemma scenarioA_ready: "live_ready scenarioA dual_camera"
  by (simp add: live_ready_def scenarioA_available dual_camera_ready)

subsection \<open>The snap path\<close>

lemma narrow_widen:
  assumes "unat (x :: 64 word) < 2 ^ 32"
  shows "ucast (ucast x :: 32 word) = x"
proof -
  have "unat (take_bit 32 x) = take_bit 32 (unat x)"
    by (simp add: unsigned_take_bit_eq)
  also have "\<dots> = unat x"
    using assms by (simp add: take_bit_nat_eq_self)
  finally have "take_bit 32 x = x"
    by (simp add: word_unat_eq_iff)
  moreover have "ucast (ucast x :: 32 word) = take_bit 32 x"
    by (simp add: unsigned_ucast_eq)
  ultimately show ?thesis by simp
qed

lemma snap_stream_ok:
  assumes "snap_fits d c s"
  shows "\<exists>c'. snap_stream d s c = Inr (DEVICE_OK, c') \<and>
           extends c c' [Memcpy s (fst (mapped_range d s)) (unat (frame_stride d s - sizeof_VideoFrame d)),
                         UnmapRead s (ucast (ucast (range_bytes d s) :: 32 word))]"
proof -
  obtain beg "end" where r: "mapped_range d s = (beg, end)" by (cases "mapped_range d s")
  have ps: "poll_stream d s = ((beg, end), snd (poll_stream d s))"
    using poll_stream_split [of d s] r by simp
  have p: "\<not> maxRetries \<le> snd (poll_stream d s)"
    using assms by (simp add: snap_fits_def polled_def)
  let ?n = "unat (bytes_of_frame (mem d beg) - sizeof_VideoFrame d)"
  have fit: "s < length (imgs c)" "?n \<le> length (pixels (imgs c ! s))"
    using assms r by (simp_all add: snap_fits_def frame_stride_def)
  from memcpy_frame_ok [OF fit, of beg "mem d beg"] obtain c1 where
    m: "memcpy_frame s beg (mem d beg) ?n c = Inr c1" "extends c c1 [Memcpy s beg ?n]"
    by blast
  let ?u = "UnmapRead s (ucast (ucast (end - beg) :: 32 word))"
  have "snap_stream d s c = Inr (DEVICE_OK, emit ?u c1)"
    using p m(1) by (subst snap_stream_def, subst ps) (simp add: Let_def ConsumedBytes_def)
  moreover have "extends c (emit ?u c1) [Memcpy s beg ?n, ?u]"
    using extends_trans [OF m(2) extends_emit [of c1 ?u]] by simp
  ultimately show ?thesis
    using r by (simp add: frame_stride_def range_bytes_def)
qed

lemma readSnapImageFrames_ok:
  assumes "snap_ready d c"
  shows "\<exists>c' es. readSnapImageFrames d c = Inr (DEVICE_OK, c') \<and> extends c c' es \<and>
           composited 0 es = [fst (mapped_range d 0)] \<and>
           unmapped_bytes 0 es = [ucast (ucast (range_bytes d 0) :: 32 word)] \<and>
           composited 1 es = (if 1 < length (imgs c) then [fst (mapped_range d 1)] else []) \<and>
           unmapped_bytes 1 es =
             (if 1 < length (imgs c) then [ucast (ucast (range_bytes d 1) :: 32 word)] else [])"
proof -
  have f0: "snap_fits d c 0"
    using assms by (simp add: snap_ready_def)
  from snap_stream_ok [OF f0] obtain c1 where
    s0: "snap_stream d 0 c = Inr (DEVICE_OK, c1)"
        "extends c c1 [Memcpy 0 (fst (mapped_range d 0)) (unat (frame_stride d 0 - sizeof_VideoFrame d)),
                       UnmapRead 0 (ucast (ucast (range_bytes d 0) :: 32 word))]"
    by blast
  note fl = extends_flags [OF s0(2)]
  show ?thesis
  proof (cases "1 < length (imgs c)")
    case True
    then have "snap_fits d c 1"
      using assms by (simp add: snap_ready_def)
    then have "snap_fits d c1 1"
      using fl s0(2) shape_dims [of c1 c 1]
      by (simp add: snap_fits_def extends_def dims_def)
    from snap_stream_ok [OF this] obtain c2 where
      s1: "snap_stream d 1 c1 = Inr (DEVICE_OK, c2)"
          "extends c1 c2 [Memcpy 1 (fst (mapped_range d 1)) (unat (frame_stride d 1 - sizeof_VideoFrame d)),
                          UnmapRead 1 (ucast (ucast (range_bytes d 1) :: 32 word))]"
      by blast
    have "readSnapImageFrames d c = Inr (DEVICE_OK, c2)"
      using s0(1) s1(1) True fl by (simp add: readSnapImageFrames_def)
    then show ?thesis
      using extends_trans [OF s0(2) s1(2)] True
      by (intro exI [of _ c2] exI) auto
  next
    case False
    have "readSnapImageFrames d c = Inr (DEVICE_OK, c1)"
      using s0(1) False fl by (simp add: readSnapImageFrames_def)
    then show ?thesis
      using s0(2) False
      by (intro exI [of _ c1] exI) auto
  qed
qed

lemma single_camera_imgs:
  "imgs single_camera = [Resize 2 2 1]" "effects single_camera = []"
  by (simp_all add: single_camera_def setupBuffers_def)

text \<open>
  On the snap path the whole range is released. When the range holds the one frame the
  driver was configured to deliver (\<open>SnapImage\<close> sets \<open>max_frame_count\<close> to 1 before it
  starts the driver), that is the stride of the one frame composited.
\<close>

lemma snap_releases_one_frame:
  assumes "snap_ready d c" and "range_bytes d 0 = frame_stride d 0"
    and "unat (frame_stride d 0) < 2 ^ 32"
  shows "\<exists>c' es. readSnapImageFrames d c = Inr (DEVICE_OK, c') \<and> effects c' = effects c @ es \<and>
           composited 0 es = [fst (mapped_range d 0)] \<and> unmapped_bytes 0 es = [frame_stride d 0]"
proof -
  from readSnapImageFrames_ok [OF assms(1)] obtain c' es where
    r: "readSnapImageFrames d c = Inr (DEVICE_OK, c')" "extends c c' es"
      "composited 0 es = [fst (mapped_range d 0)]"
      "unmapped_bytes 0 es = [ucast (ucast (range_bytes d 0) :: 32 word)]"
    by blast
  have "effects c' = effects c @ es"
    using r(2) by (simp add: extends_def)
  moreover have "unmapped_bytes 0 es = [frame_stride d 0]"
    using r(4) assms(2) narrow_widen [OF assms(3)] by simp
  ultimately show ?thesis
    using r(1,3) by blast
qed

subsection \<open>Frames delivered in Scenario A\<close>

lemma upt5: "[0..<5] = [0, 1, 2, 3, 4]"
  by (simp add: upt_rec)

text \<open>
  C1 does not hold of the code as written.
  In Scenario A the read composites, on each channel, the frame at
  the start of the range and then the bytes found 92 * 88 bytes further for each index,
  not 92 bytes further: the pointer to the current frame is a \<open>VideoFrame*\<close>, and adding
  \<open>bytes_of_frame\<close> to it moves it by that many headers. The frames inserted carry the ids
  100, 0, 0, 0, 0 (each once per channel) instead of 100 to 104. The helper
  \<open>next_frame\<close>, which the loop does not use, steps by 92 bytes.
\<close>

theorem scenarioA_reads_off_stride:
  "\<exists>c'. readLiveFrames scenarioA dual_camera = Inr (DEVICE_OK, 5, c') \<and>
      composited 0 (effects c') = [4096, 12192, 20288, 28384, 36480] \<and>
      composited 1 (effects c') = [8192, 16288, 24384, 32480, 40576] \<and>
      inserted_ids (effects c') = [100, 100, 0, 0, 0, 0, 0, 0, 0, 0] \<and>
      next_frame scenarioA 4096 = 4188"
  by (simp add: readLiveFrames_def scenarioA_polls maxRetries_def deliver_batch_def Let_def
        ConsumedBytes_def dual_camera_def setupBuffers_def Resize_def upt5
        frame_step_def check_and_copy_def memcpy_frame_def vec_at_def image_bytes_def emit_def
        frame_metadata_def next_frame_def,
      simp add: scenarioA_def ring_mem_def frame92_def upt5
        frame_step_def check_and_copy_def memcpy_frame_def vec_at_def image_bytes_def emit_def
        frame_metadata_def Let_def)

subsection \<open>The batch of Scenario B\<close>


lemma upt2: "[0..<2] = [0, 1]"
  by (simp add: upt_rec)


subsection \<open>Bytes released in Scenario A\<close>

text \<open>
  C2 does not hold of the code as written.
  In Scenario A the read gives back 460 bytes, five strides, on each stream, while the
  only frame it composited from the mapped range of a stream is the first: the other
  four copies read beyond the end of the range. Four frames of each stream are released
  unread. The defect is the pointer step of C1; the byte count itself is the batch size
  times the stride (\<open>readLiveFrames_ok\<close>), and the snap path releases the one frame it
  composites (\<open>snap_releases_one_frame\<close>).
\<close>

theorem scenarioA_unmaps_unread_frames:
  "mapped_range scenarioA 0 = (4096, 4556) \<and> mapped_range scenarioA 1 = (8192, 8652) \<and>
   frame_stride scenarioA 0 = 92 \<and> frame_stride scenarioA 1 = 92 \<and>
   (\<exists>c'. readLiveFrames scenarioA dual_camera = Inr (DEVICE_OK, 5, c') \<and>
      unmapped_bytes 0 (effects c') = [460] \<and>
      unmapped_bytes 1 (effects c') = [460] \<and>
      filter (in_range (4096, 4556)) (composited 0 (effects c')) = [4096] \<and>
      filter (in_range (8192, 8652)) (composited 1 (effects c')) = [8192])"
proof -
  have "\<exists>c'. readLiveFrames scenarioA dual_camera = Inr (DEVICE_OK, 5, c') \<and>
      unmapped_bytes 0 (effects c') = [460] \<and>
      unmapped_bytes 1 (effects c') = [460] \<and>
      composited 0 (effects c') = [4096, 12192, 20288, 28384, 36480] \<and>
      composited 1 (effects c') = [8192, 16288, 24384, 32480, 40576]"
    by (simp add: readLiveFrames_def scenarioA_polls maxRetries_def deliver_batch_def Let_def
        ConsumedBytes_def dual_camera_def setupBuffers_def Resize_def upt5
        frame_step_def check_and_copy_def memcpy_frame_def vec_at_def image_bytes_def emit_def
        frame_metadata_def,
      simp add: scenarioA_def ring_mem_def frame92_def upt5
        frame_step_def check_and_copy_def memcpy_frame_def vec_at_def image_bytes_def emit_def
        frame_metadata_def Let_def)
  then obtain c' where c: "readLiveFrames scenarioA dual_camera = Inr (DEVICE_OK, 5, c')"
      "unmapped_bytes 0 (effects c') = [460]"
      "unmapped_bytes 1 (effects c') = [460]"
      "composited 0 (effects c') = [4096, 12192, 20288, 28384, 36480]"
      "composited 1 (effects c') = [8192, 16288, 24384, 32480, 40576]"
    by blast
  have "filter (in_range (4096, 4556)) (composited 0 (effects c')) = [4096]"
    "filter (in_range (8192, 8652)) (composited 1 (effects c')) = [8192]"
    unfolding c by (simp_all add: in_range_def)
  then show ?thesis
    using c(1,2,3) by (simp add: scenarioA_available)
qed

subsection \<open>A stream with a gap\<close>

lemma gap_polls:
  "poll_stream gap_driver 0 = ((4096, 4280), 0)" "poll_stream stale_gap_driver 0 = ((4096, 4280), 0)"
  by (simp_all add: poll_stream_first gap_driver_def stale_gap_driver_def)

text \<open>
  C8 does not hold of the code as written.
  Stream 0 maps two frames with the ids 100 and 102: the frame of index 1 does not carry
  the id \<open>startFrameId + 1\<close>. The read does not abort: it returns \<open>DEVICE_OK\<close> with
  \<open>framesRead = 2\<close>. But the frame with id 102, at address 4188, is never read, so it is
  neither composited nor inserted, and no message names it: round 1 reads address 12192.
  Over a zeroed memory the message written says that id 0 was found and the image
  inserted carries id 0; with an older header of id 101 at that address no message is
  written at all and the gap passes unseen. The defect is the pointer step of C1.
\<close>

theorem gap_frame_never_read:
  "frame_id (mem gap_driver 4096) = 100 \<and> frame_id (mem gap_driver 4188) = 102 \<and>
   mapped_range gap_driver 0 = (4096, 4280) \<and> frame_stride gap_driver 0 = 92 \<and>
   (\<exists>c'. readLiveFrames gap_driver single_camera = Inr (DEVICE_OK, 2, c') \<and>
      composited 0 (effects c') = [4096, 12192] \<and>
      missed_frames (effects c') = [(1, 101, 0)] \<and>
      inserted_ids (effects c') = [100, 0]) \<and>
   frame_id (mem stale_gap_driver 4188) = 102 \<and>
   (\<exists>c'. readLiveFrames stale_gap_driver single_camera = Inr (DEVICE_OK, 2, c') \<and>
      composited 0 (effects c') = [4096, 12192] \<and>
      missed_frames (effects c') = [] \<and>
      inserted_ids (effects c') = [100, 101])"
proof -
  have a: "\<exists>c'. readLiveFrames gap_driver single_camera = Inr (DEVICE_OK, 2, c') \<and>
      composited 0 (effects c') = [4096, 12192] \<and>
      missed_frames (effects c') = [(1, 101, 0)] \<and>
      inserted_ids (effects c') = [100, 0]"
    by (simp add: readLiveFrames_def gap_polls maxRetries_def deliver_batch_def Let_def
        ConsumedBytes_def single_camera_def setupBuffers_def Resize_def upt2
        frame_step_def check_and_copy_def memcpy_frame_def vec_at_def image_bytes_def emit_def
        frame_metadata_def insert_current_def,
      simp add: gap_driver_def gap_mem_def frame92_def upt2
        frame_step_def check_and_copy_def memcpy_frame_def vec_at_def image_bytes_def emit_def
        frame_metadata_def insert_current_def Let_def)
  have b: "\<exists>c'. readLiveFrames stale_gap_driver single_camera = Inr (DEVICE_OK, 2, c') \<and>
      composited 0 (effects c') = [4096, 12192] \<and>
      missed_frames (effects c') = [] \<and>
      inserted_ids (effects c') = [100, 101]"
    by (simp add: readLiveFrames_def gap_polls maxRetries_def deliver_batch_def Let_def
        ConsumedBytes_def single_camera_def setupBuffers_def Resize_def upt2
        frame_step_def check_and_copy_def memcpy_frame_def vec_at_def image_bytes_def emit_def
        frame_metadata_def insert_current_def,
      simp add: stale_gap_driver_def stale_gap_mem_def frame92_def upt2
        frame_step_def check_and_copy_def memcpy_frame_def vec_at_def image_bytes_def emit_def
        frame_metadata_def insert_current_def Let_def)
  have c: "frame_id (mem gap_driver 4096) = 100" "frame_id (mem gap_driver 4188) = 102"
    "frame_id (mem stale_gap_driver 4188) = 102"
    "mapped_range gap_driver 0 = (4096, 4280)" "frame_stride gap_driver 0 = 92"
    by (simp_all add: mapped_range_def frame_stride_def gap_polls,
        simp_all add: gap_driver_def stale_gap_driver_def gap_mem_def stale_gap_mem_def frame92_def)
  show ?thesis
    using a b c by simp
qed

subsection \<open>The retry bound\<close>

lemma retry_loop_exhausted:
  "retries \<le> maxRetries \<Longrightarrow> r = rd retries \<Longrightarrow>
   \<forall>k. retries \<le> k \<and> k < maxRetries \<longrightarrow> fst (rd k) = snd (rd k) \<Longrightarrow>
   retry_loop rd r retries = (rd maxRetries, maxRetries)"
proof (induction rd r retries rule: retry_loop.induct)
  case (1 rd r retries)
  show ?case
  proof (cases "retries < maxRetries")
    case True
    then have e: "fst r = snd r"
      using "1.prems"(2,3) by simp
    have "retry_loop rd (rd (Suc retries)) (Suc retries) = (rd maxRetries, maxRetries)"
      using "1.IH" [of ] e True "1.prems"(3) by simp
    then show ?thesis
      using e True by (simp add: retry_loop_again)
  next
    case False
    then have "retries = maxRetries"
      using "1.prems"(1) by simp
    then show ?thesis
      using "1.prems"(2) by (simp add: retry_loop_stop)
  qed
qed

text \<open>
  C3 does not hold of the code as written.
  The loop gives up exactly when the first call and the first 999
  retries all return an empty range (\<open>poll_stream_timeout\<close>): it still makes the 1000th
  retry, but then returns \<open>ERR_TIMEOUT\<close> whatever that retry mapped. Here the 1000th retry
  maps a frame and both readers time out.
\<close>

theorem timeout_despite_frame_on_last_retry:
  "fst (map_read late_frame_driver 0 1000) \<noteq> snd (map_read late_frame_driver 0 1000) \<and>
   poll_stream late_frame_driver 0 = ((4096, 4188), 1000) \<and>
   readLiveFrames late_frame_driver single_camera = Inr (ERR_TIMEOUT, 0, single_camera) \<and>
   readSnapImageFrames late_frame_driver single_camera = Inr (ERR_TIMEOUT, single_camera)"
proof -
  have "retry_loop (map_read late_frame_driver 0) (map_read late_frame_driver 0 0) 0 =
        (map_read late_frame_driver 0 maxRetries, maxRetries)"
    by (rule retry_loop_exhausted) (simp_all add: late_frame_driver_def maxRetries_def)
  then have p: "poll_stream late_frame_driver 0 = ((4096, 4188), 1000)"
    by (simp add: poll_stream_def late_frame_driver_def maxRetries_def)
  show ?thesis
    using p by (simp add: readLiveFrames_def readSnapImageFrames_def snap_stream_def maxRetries_def,
        simp add: late_frame_driver_def)
qed

subsection \<open>Overflow under \<open>stopOnOverflow\<close>\<close>

text \<open>No status of \<open>InsertImage\<close> ever reaches the caller of \<open>readLiveFrames\<close>.\<close>

lemma readLiveFrames_status:
  "readLiveFrames d c = Inr (ret, n, c') \<Longrightarrow> ret = DEVICE_OK \<or> ret = ERR_TIMEOUT"
  by (auto simp: readLiveFrames_def deliver_batch_def Let_def split: prod.splits if_splits sum.splits)

text \<open>
  C5 does not hold of the code as written.
  With \<open>stopOnOverflow\<close> set and a downstream buffer that reports an
  overflow on every insert, the read of one frame makes its one insert, drops the status
  and returns \<open>DEVICE_OK\<close> with \<open>framesRead = 1\<close>.
\<close>

theorem overflow_dropped_when_stopOnOverflow:
  "stopOnOverflow stopping_camera \<and>
   insert_image full_sink_driver 0 = DEVICE_BUFFER_OVERFLOW \<and>
   (\<exists>c'. readLiveFrames full_sink_driver stopping_camera = Inr (DEVICE_OK, 1, c') \<and>
      sink_calls (effects c') = [InsertImage [7, 7, 7, 7] 2 2 1 \<lparr>CpxFrameId = 100, CpxTimeStamp = 0\<rparr>])"
proof -
  have p: "poll_stream full_sink_driver 0 = ((4096, 4188), 0)"
    by (simp add: poll_stream_first full_sink_driver_def)
  have px: "map (\<lambda>k. 7 :: 8 word) [0..<4] = [7, 7, 7, 7]"
    by (simp add: upt_rec)
  show ?thesis
    by (simp add: readLiveFrames_def p maxRetries_def deliver_batch_def Let_def ConsumedBytes_def
        stopping_camera_def single_camera_def setupBuffers_def Resize_def frame_step_def
        check_and_copy_def memcpy_frame_def vec_at_def image_bytes_def emit_def frame_metadata_def
        insert_current_def,
        simp add: full_sink_driver_def frame92_def frame_step_def check_and_copy_def
        memcpy_frame_def vec_at_def image_bytes_def emit_def frame_metadata_def insert_current_def
        Let_def px)
qed

subsection \<open>Camera selection\<close>

text \<open>
  C6 does not hold of the code as written.
  Only a simulated camera 1 makes \<open>Initialize\<close> look at camera 2: a
  real camera 1 with a simulated camera 2 passes the checks (with \<open>demo\<close> false), while
  the same pair the other way round is refused.
\<close>

theorem real_camera1_simulated_camera2_accepted:
  "check_camera_selection ''None'' ''Hamamatsu C15440'' ''simulated: radial sin'' = Inr False \<and>
   check_camera_selection ''None'' ''simulated: radial sin'' ''Hamamatsu C15440'' =
     Inl ERR_INVALID_CAMERA_SELECTION"
  by (simp add: check_camera_selection_def rfind0_def)

subsection \<open>Frame targets\<close>

lemma configured_append: "configured (xs @ ys) = configured xs @ configured ys"
  by (induction xs rule: configured.induct) auto

lemma frame_target_positive:
  assumes "0 < numImages" and "numImages < 2 ^ 63"
  shows "uint (frame_target numImages) = numImages"
proof -
  have "uint (frame_target numImages) = uint (word_of_int numImages :: 64 word)"
    using assms(1) by (simp add: frame_target_def)
  also have "\<dots> = numImages mod 2 ^ LENGTH(64)"
    by (rule uint_word_of_int)
  also have "\<dots> = numImages"
    using assms by (intro mod_pos_pos_trivial) simp_all
  finally show ?thesis .
qed

lemma frame_target_zero: "unat (frame_target 0) = 2 ^ 64 - 1"
  by (simp add: frame_target_def MAXUINT64_def)

text \<open>
  C9. When the camera is not capturing and the core accepts the acquisition,
  \<open>StartSequenceAcquisition\<close> configures the driver once, with the same target frame count
  on both streams: the largest 64-bit count when \<open>numImages\<close> is 0, and \<open>numImages\<close> when
  it is positive (a \<open>long\<close> is below \<open>2 ^ 63\<close>).
\<close>

theorem sequence_frame_target:
  assumes "\<not> is_capturing h" and "prepare_for_acq h = DEVICE_OK"
  shows "\<exists>p. configured (effects (snd (StartSequenceAcquisition h numImages interval_ms stopOnOvf c))) =
               configured (effects c) @ [p] \<and>
             max_frame_count (video1 p) = max_frame_count (video0 p) \<and>
             (numImages = 0 \<longrightarrow> unat (max_frame_count (video0 p)) = 2 ^ 64 - 1) \<and>
             (0 < numImages \<and> numImages < 2 ^ 63 \<longrightarrow>
                uint (max_frame_count (video0 p)) = numImages)"
proof -
  let ?t = "frame_target numImages"
  let ?p = "get_configuration h\<lparr>video0 := (video0 (get_configuration h))\<lparr>max_frame_count := ?t\<rparr>,
              video1 := (video1 (get_configuration h))\<lparr>max_frame_count := ?t\<rparr>\<rparr>"
  have "configured (effects (snd (StartSequenceAcquisition h numImages interval_ms stopOnOvf c))) =
        configured (effects c) @ [?p]"
    using assms
    by (simp add: StartSequenceAcquisition_def Let_def emit_def configured_append)
  moreover have "max_frame_count (video1 ?p) = max_frame_count (video0 ?p)"
    by simp
  moreover have "numImages = 0 \<longrightarrow> unat (max_frame_count (video0 ?p)) = 2 ^ 64 - 1"
    using frame_target_zero by simp
  moreover have "0 < numImages \<and> numImages < 2 ^ 63 \<longrightarrow>
                 uint (max_frame_count (video0 ?p)) = numImages"
    using frame_target_positive by simp
  ultimately show ?thesis by blast
qed

theorem sequence_frame_target_witness:
  "\<not> is_capturing idle_host \<and> prepare_for_acq idle_host = DEVICE_OK \<and>
   (\<exists>p. configured (effects (snd (StartSequenceAcquisition idle_host 0 0 False single_camera))) = [p] \<and>
      unat (max_frame_count (video0 p)) = 18446744073709551615 \<and>
      unat (max_frame_count (video1 p)) = 18446744073709551615) \<and>
   (\<exists>p. configured (effects (snd (StartSequenceAcquisition idle_host 10 0 False single_camera))) = [p] \<and>
      uint (max_frame_count (video0 p)) = 10 \<and> uint (max_frame_count (video1 p)) = 10)"
proof -
  have h: "\<not> is_capturing idle_host" "prepare_for_acq idle_host = DEVICE_OK"
    by (simp_all add: idle_host_def)
  show ?thesis
    using sequence_frame_target [OF h, of 0 0 False single_camera]
      sequence_frame_target [OF h, of 10 0 False single_camera] h
    by (simp add: single_camera_imgs) metis
qed

subsection \<open>Image buffers by channel\<close>

lemma GetImageBuffer_channel_null:
  assumes "imgs c \<noteq> []" and "length (imgs c) \<le> unat channel"
  shows "GetImageBuffer_channel c channel = Inr None"
proof -
  have lt: "unat channel < 2 ^ 32"
    using unsigned_less [of channel] by simp
  have u: "unat (ucast channel :: 64 word) = unat channel"
    using lt by (simp add: unsigned_ucast_eq take_bit_nat_eq_self)
  have len: "length (imgs c) < 2 ^ 64"
    using assms(2) lt by simp
  have "Suc 0 \<le> length (imgs c)"
    using assms(1) by (cases "imgs c") simp_all
  then have "(of_nat (length (imgs c)) :: 64 word) - 1 = of_nat (length (imgs c) - 1)"
    by simp
  then have "unat ((of_nat (length (imgs c)) :: 64 word) - 1) = length (imgs c) - 1"
    using len by (simp add: unat_of_nat)
  then have "(of_nat (length (imgs c)) :: 64 word) - 1 < ucast channel"
    using u assms(2) \<open>Suc 0 \<le> length (imgs c)\<close> by (simp add: word_less_nat_alt)
  then show ?thesis
    by (simp add: GetImageBuffer_channel_def)
qed

lemma GetImageBuffer_channel_valid:
  assumes "unat channel < length (imgs c)" and "length (imgs c) < 2 ^ 64"
  shows "GetImageBuffer_channel c channel =
           (if multiChannel c then Inr (Some (pixels (imgs c ! unat channel)))
            else if currentCamera c < length (imgs c) then Inr (Some (pixels (imgs c ! currentCamera c)))
            else Inl OutOfBounds)"
proof -
  have lt: "unat channel < 2 ^ 32"
    using unsigned_less [of channel] by simp
  have u: "unat (ucast channel :: 64 word) = unat channel"
    using lt by (simp add: unsigned_ucast_eq take_bit_nat_eq_self)
  have "Suc 0 \<le> length (imgs c)"
    using assms(1) by (cases "imgs c") simp_all
  then have "(of_nat (length (imgs c)) :: 64 word) - 1 = of_nat (length (imgs c) - 1)"
    by simp
  then have "unat ((of_nat (length (imgs c)) :: 64 word) - 1) = length (imgs c) - 1"
    using assms(2) by (simp add: unat_of_nat)
  then have "\<not> (of_nat (length (imgs c)) :: 64 word) - 1 < ucast channel"
    using u assms(1) by (simp add: word_less_nat_alt)
  then show ?thesis
    using assms(1) by (simp add: GetImageBuffer_channel_def vec_at_def)
qed

lemma GetImageBuffer_channel_empty:
  "imgs c = [] \<Longrightarrow> GetImageBuffer_channel c channel = Inl OutOfBounds"
  by (simp add: GetImageBuffer_channel_def vec_at_def not_less)

text \<open>
  C10 does not hold of the code as written.
  The check compares \<open>channel\<close> with the number of buffers, but in
  single-channel mode the buffer read is the one of \<open>currentCamera\<close>. In single mode
  \<open>setupBuffers\<close> allocates one buffer, and after the property handler has selected the
  second device \<open>currentCamera\<close> is 1: \<open>GetImageBuffer(0)\<close> then reads \<open>imgs[1]\<close>, past
  the end of the vector.
\<close>

theorem GetImageBuffer_reads_past_buffers:
  "length (imgs (OnDevice_AfterSet ''None'' single_camera)) = 1 \<and>
   currentCamera (OnDevice_AfterSet ''None'' single_camera) = 1 \<and>
   multiChannel (OnDevice_AfterSet ''None'' single_camera) = False \<and>
   GetImageBuffer_channel (OnDevice_AfterSet ''None'' single_camera) 0 = Inl OutOfBounds"
  by (simp add: OnDevice_AfterSet_def single_camera_def setupBuffers_def
      GetImageBuffer_channel_def vec_at_def)

end
